theory Spec2Isabelle
  imports Main "HOL-Library.Word" "HOL-Library.Sublist"
begin

section \<open>Data model (trace.go)\<close>

text \<open>
  Go's \<open>uintptr\<close> is a 64-bit word. Go's \<open>int\<close> is modelled as \<open>int\<close>: the only
  arithmetic the code does on it is on lengths and indices of slices, far from the
  64-bit bounds. Slice indices that the code keeps non-negative are \<open>nat\<close>.
\<close>

type_synonym uintptr = "64 word"

text \<open>
  \<open>runtime.Frame\<close> of the Go standard library, with its exported fields. \<open>Func\<close> is a
  pointer, modelled by its address (\<open>None\<close> is nil). Go's \<open>==\<close> on the struct compares
  every field, which is HOL equality on the record.
\<close>

record runtime_Frame =
  PC :: uintptr
  Func :: "nat option"
  Function :: string
  File :: string
  Line :: int
  Entry :: uintptr

text \<open>\<open>time.Time\<close> of the Go standard library: wall clock, monotonic extension, location pointer.\<close>

record Time =
  wall :: "64 word"
  ext :: "64 word"
  loc :: "nat option"

record FrameInfo =
  Frame :: runtime_Frame
  TimeRecorded :: Time

text \<open>
  The code handles frames through pointers \<open>*FrameInfo\<close>: a pointer is \<open>Some\<close> frame or
  \<open>None\<close> (nil). A \<open>FrameInfo\<close> is never written after its creation, so the pointer is
  modelled by the value it points to.
\<close>

type_synonym FrameInfo_ptr = "FrameInfo option"

datatype fault =
    NilDereference
  | IndexOutOfRange
  | SliceOutOfRange
  | NegativeRepeatCount
  | NilMapWrite

definition Copy :: "FrameInfo_ptr \<Rightarrow> FrameInfo_ptr" where
  "Copy fr = (case fr of
     None \<Rightarrow> None
   | Some f \<Rightarrow> Some \<lparr>Frame = Frame f, TimeRecorded = TimeRecorded f\<rparr>)"

definition Equal :: "FrameInfo_ptr \<Rightarrow> FrameInfo_ptr \<Rightarrow> fault + bool" where
  "Equal fr other = (case fr of
     None \<Rightarrow> Inl NilDereference
   | Some f \<Rightarrow> (case other of
       None \<Rightarrow> Inl NilDereference
     | Some g \<Rightarrow> Inr (f = g)))"

definition Same :: "FrameInfo_ptr \<Rightarrow> FrameInfo_ptr \<Rightarrow> fault + bool" where
  "Same fr other = (case fr of
     None \<Rightarrow> Inl NilDereference
   | Some f \<Rightarrow> (case other of
       None \<Rightarrow> Inl NilDereference
     | Some g \<Rightarrow> Inr (Frame f = Frame g)))"

text \<open>
  \<open>from\<close> of the source (the name is a keyword of Isabelle, hence \<open>from_frame\<close>).
\<close>

definition from_frame :: "runtime_Frame \<Rightarrow> Time \<Rightarrow> FrameInfo_ptr" where
  "from_frame frame timeStamp = Some \<lparr>Frame = frame, TimeRecorded = timeStamp\<rparr>"

text \<open>Reading \<open>xs[i]\<close>: Go panics when the index is not below the length.\<close>

definition index :: "'a list \<Rightarrow> nat \<Rightarrow> fault + 'a" where
  "index xs i = (if i < length xs then Inr (xs ! i) else Inl IndexOutOfRange)"

section \<open>Stack diffing: findLastCommonFrameIndex\<close>

text \<open>
  The inner \<open>for increment = 0; firstIdx+increment < firstLen; increment++\<close> loop, entered
  at \<open>increment\<close>. It returns \<open>matching\<close> and the value of \<open>increment\<close> at the loop's exit.
\<close>

function findLastCommonFrameIndex_inner ::
  "FrameInfo_ptr list \<Rightarrow> FrameInfo_ptr list \<Rightarrow> nat \<Rightarrow> nat \<Rightarrow> nat \<Rightarrow> fault + (bool \<times> nat)" where
  "findLastCommonFrameIndex_inner first second firstIdx secondIdx increment =
     (if firstIdx + increment < length first then
        (case index first (firstIdx + increment) of
           Inl e \<Rightarrow> Inl e
         | Inr a \<Rightarrow> (case index second (secondIdx + increment) of
             Inl e \<Rightarrow> Inl e
           | Inr b \<Rightarrow> (case Same a b of
               Inl e \<Rightarrow> Inl e
             | Inr same \<Rightarrow>
                 if \<not> same then Inr (False, increment)
                 else findLastCommonFrameIndex_inner first second firstIdx secondIdx (increment + 1))))
      else Inr (True, increment))"
  by pat_completeness auto
termination
  by (relation "measure (\<lambda>(first, second, firstIdx, secondIdx, increment).
        length first - (firstIdx + increment))") auto

text \<open>The outer \<open>for firstIdx < firstLen\<close> loop.\<close>

function findLastCommonFrameIndex_outer ::
  "FrameInfo_ptr list \<Rightarrow> FrameInfo_ptr list \<Rightarrow> nat \<Rightarrow> nat \<Rightarrow> fault + (nat \<times> nat)" where
  "findLastCommonFrameIndex_outer first second firstIdx secondIdx =
     (if firstIdx < length first then
        (case findLastCommonFrameIndex_inner first second firstIdx secondIdx 0 of
           Inl e \<Rightarrow> Inl e
         | Inr (matching, increment) \<Rightarrow>
             if matching then Inr (firstIdx, secondIdx)
             else findLastCommonFrameIndex_outer first second
                    (firstIdx + (increment + 1)) (secondIdx + (increment + 1)))
      else Inr (firstIdx, secondIdx))"
  by pat_completeness auto
termination
  by (relation "measure (\<lambda>(first, second, firstIdx, secondIdx). length first - firstIdx)") auto

definition findLastCommonFrameIndex ::
  "FrameInfo_ptr list \<Rightarrow> FrameInfo_ptr list \<Rightarrow> fault + (nat \<times> nat)" where
  "findLastCommonFrameIndex first second =
     (let firstLen = length first;
          secondLen = length second;
          (firstIdx, secondIdx) =
            (if firstLen > secondLen then (firstLen - secondLen, 0)
             else (0, secondLen - firstLen));
          (firstIdx, secondIdx) =
            (if firstIdx = 0 \<and> secondIdx = 0 then (firstIdx + 1, secondIdx + 1)
             else (firstIdx, secondIdx))
      in findLastCommonFrameIndex_outer first second firstIdx secondIdx)"

text \<open>\<open>fromStrings\<close> of \<open>trace_test.go\<close>: frames that only carry a file name.\<close>

definition zero_Frame :: runtime_Frame where
  "zero_Frame = \<lparr>PC = 0, Func = None, Function = [], File = [], Line = 0, Entry = 0\<rparr>"

definition zero_Time :: Time where
  "zero_Time = \<lparr>wall = 0, ext = 0, loc = None\<rparr>"

definition fromStrings :: "string list \<Rightarrow> FrameInfo_ptr list" where
  "fromStrings labels =
     map (\<lambda>name. Some \<lparr>Frame = zero_Frame\<lparr>File := name\<rparr>, TimeRecorded = zero_Time\<rparr>) labels"

text \<open>Two pointers are to frames at the same stack location: \<open>Same\<close> returns true.\<close>

definition same_frames :: "FrameInfo_ptr \<Rightarrow> FrameInfo_ptr \<Rightarrow> bool" where
  "same_frames a b = (Same a b = Inr True)"

section \<open>The tracer's state and its collaborators\<close>

text \<open>
  Values of type \<open>interface{}\<close> that the code hands to \<open>fmt.Sprintf\<close> and to the
  logger: strings, ints, addresses, runes (\<open>int32\<close>), and \<open>VOther\<close> for a value of any
  other dynamic type.
\<close>

type_synonym rune = "32 word"

datatype Value =
    VString string
  | VInt int
  | VUintptr uintptr
  | VRune rune
  | VOther nat

text \<open>
  The \<open>Logger\<close> interface is the sink. The model records the calls the sink receives,
  in order; each call produces one line of output.
\<close>

datatype LogCall =
    Printf string "Value list"
  | Println "Value list"

record GoroutineInfo =
  ID :: int
  Frames :: "FrameInfo_ptr list"
  TopMessage :: string
  History :: "string list"

text \<open>
  The value of the field \<open>ClockFn\<close>: \<open>time.Now\<close> or a function that the user has set.
  The runtime gives the reading of either at a call.
\<close>

datatype ClockFunc = time_Now | user_clock

text \<open>
  The \<open>Tracer\<close> struct. \<open>Out\<close> is \<open>None\<close> for a nil interface, otherwise the calls
  the logger has received so far. \<open>goroutines\<close> is \<open>None\<close> for the nil map. The values
  of the map are pointers \<open>*GoroutineInfo\<close>; each is created by \<open>setGoroutine\<close> for
  one key and stored nowhere else, so the map holds the record itself. The mutex is
  left out: the model runs one call at a time.
\<close>

record Tracer =
  On :: bool
  Out :: "LogCall list option"
  Capacity :: int
  SourceLength :: int
  LockGoroutine :: bool
  OmitTime :: bool
  ClockFn :: "ClockFunc option"
  OnGoroutineSwitchPrintCurrentStack :: bool
  OnGoroutineSwitchPrintStackHistory :: bool
  goroutines :: "(int \<rightharpoonup> GoroutineInfo) option"
  goroutineID :: int
  indents :: "string list"
  marker :: string
  calloutPrevious :: rune
  calloutNew :: rune

text \<open>
  What the Go runtime and standard library give to one call of \<open>Trace\<close>. They are not
  code of this repository, so they are parameters:
  \<^item> \<open>GoroutineID\<close>: the result of \<open>GoroutineID()\<close> for the calling goroutine (a call
    in which \<open>GoroutineID()\<close> cannot parse the id and panics is outside the model);
  \<^item> \<open>clock\<close>: the reading that the clock function returns at this call;
  \<^item> \<open>Callers\<close>: for a skip depth and a capacity, the frames that iterating
    \<open>runtime.CallersFrames\<close> over the program counters of \<open>runtime.Callers\<close> yields,
    innermost first;
  \<^item> \<open>Sprintf\<close>, \<open>Time_Format\<close>, \<open>TrimSpace\<close>: \<open>fmt.Sprintf\<close>, \<open>Time.Format\<close>,
    \<open>strings.TrimSpace\<close>.
\<close>

record Runtime =
  GoroutineID :: int
  clock :: "ClockFunc \<Rightarrow> Time"
  Callers :: "int \<Rightarrow> int \<Rightarrow> runtime_Frame list"
  Sprintf :: "string \<Rightarrow> Value list \<Rightarrow> string"
  Time_Format :: "Time \<Rightarrow> string \<Rightarrow> string"
  TrimSpace :: "string \<Rightarrow> string"

text \<open>\<open>strings.Repeat\<close>: it panics on a negative count.\<close>

definition Repeat_nat :: "string \<Rightarrow> nat \<Rightarrow> string" where
  "Repeat_nat s count = concat (replicate count s)"

definition Repeat :: "string \<Rightarrow> int \<Rightarrow> fault + string" where
  "Repeat s count =
     (if count < 0 then Inl NegativeRepeatCount else Inr (Repeat_nat s (nat count)))"

definition index_int :: "'a list \<Rightarrow> int \<Rightarrow> fault + 'a" where
  "index_int xs i =
     (if 0 \<le> i \<and> i < int (length xs) then Inr (xs ! nat i) else Inl IndexOutOfRange)"

text \<open>
  The slice expressions \<open>xs[:n]\<close> and \<open>xs[n:]\<close>. Go lets \<open>xs[:n]\<close> reach up to the
  capacity of \<open>xs\<close>; the model faults as soon as \<open>n\<close> is above the length, so a result
  of the model is always a result of the code.
\<close>

definition slice_to :: "'a list \<Rightarrow> nat \<Rightarrow> fault + 'a list" where
  "slice_to xs n = (if n \<le> length xs then Inr (take n xs) else Inl SliceOutOfRange)"

definition slice_from :: "'a list \<Rightarrow> nat \<Rightarrow> fault + 'a list" where
  "slice_from xs n = (if n \<le> length xs then Inr (drop n xs) else Inl SliceOutOfRange)"

definition Out_Printf :: "Tracer \<Rightarrow> string \<Rightarrow> Value list \<Rightarrow> fault + Tracer" where
  "Out_Printf tr format v = (case Out tr of
     None \<Rightarrow> Inl NilDereference
   | Some calls \<Rightarrow> Inr (tr\<lparr>Out := Some (calls @ [Printf format v])\<rparr>))"

definition Out_Println :: "Tracer \<Rightarrow> Value list \<Rightarrow> fault + Tracer" where
  "Out_Println tr v = (case Out tr of
     None \<Rightarrow> Inl NilDereference
   | Some calls \<Rightarrow> Inr (tr\<lparr>Out := Some (calls @ [Println v])\<rparr>))"

text \<open>
  \<open>GoroutineInfo.Copy\<close> and the snapshot accessor \<open>Tracer.Goroutines\<close>, on non-nil
  receivers. The pointers kept in the map are never nil.
\<close>

definition GoroutineInfo_Copy :: "GoroutineInfo \<Rightarrow> GoroutineInfo" where
  "GoroutineInfo_Copy gi =
     \<lparr>ID = ID gi, Frames = map Copy (Frames gi), TopMessage = TopMessage gi,
      History = History gi\<rparr>"

definition Goroutines :: "Tracer \<Rightarrow> (int \<rightharpoonup> GoroutineInfo)" where
  "Goroutines tr = (case goroutines tr of
     None \<Rightarrow> Map.empty
   | Some m \<Rightarrow> (\<lambda>key. map_option GoroutineInfo_Copy (m key)))"

text \<open>\<open>proceed\<close> on a non-nil receiver: the guards and the lazy initialisation.\<close>

definition proceed :: "Tracer \<Rightarrow> bool \<times> Tracer" where
  "proceed tr =
     (if \<not> On tr \<or> Out tr = None \<or> Capacity tr \<le> 0 then (False, tr)
      else
        let tr1 = (if goroutines tr = None
                   then tr\<lparr>goroutines := Some Map.empty, calloutPrevious := 32, calloutNew := 43\<rparr>
                   else tr);
            tr2 = (if ClockFn tr1 = None then tr1\<lparr>ClockFn := Some time_Now\<rparr> else tr1)
        in (True, tr2))"

section \<open>Thread tracking: setGoroutine\<close>

text \<open>
  \<open>setGoroutine_switch\<close> is the block \<open>if goroutineID != tr.goroutineID\<close> of
  \<open>setGoroutine\<close>: it gives whether the call goes on, whether the goroutine changed,
  and the tracer after the block. \<open>setGoroutine\<close> then resolves or creates the
  goroutine's state.

  The returned pointer \<open>goroutine\<close> is the map's entry for \<open>tr.goroutineID\<close>. The model
  returns the record it points to (\<open>None\<close> for nil); \<open>store_goroutine\<close> writes the
  record back under that key after \<open>Trace\<close> has changed it.
\<close>

definition setGoroutine_switch ::
  "Runtime \<Rightarrow> Tracer \<Rightarrow> fault + (bool \<times> bool \<times> Tracer)" where
  "setGoroutine_switch rt tr =
     (let gid = GoroutineID rt in
      if gid \<noteq> goroutineID tr then
        (if LockGoroutine tr then Inr (False, True, tr)
         else
           (case (if int (length (marker tr)) \<noteq> SourceLength tr
                  then (case Repeat ''-'' (SourceLength tr) of
                          Inl e \<Rightarrow> Inl e
                        | Inr m \<Rightarrow> Inr (tr\<lparr>marker := m\<rparr>))
                  else Inr tr) of
              Inl e \<Rightarrow> Inl e
            | Inr tr1 \<Rightarrow>
                (case Out_Printf tr1 ''%s goroutine switched: %3d -> %-3d %s''
                        [VString (marker tr1), VInt (goroutineID tr1), VInt gid,
                         VString (marker tr1)] of
                   Inl e \<Rightarrow> Inl e
                 | Inr tr2 \<Rightarrow> Inr (True, True, tr2))))
      else Inr (True, False, tr))"

definition setGoroutine ::
  "Runtime \<Rightarrow> Tracer \<Rightarrow> fault + (bool \<times> bool \<times> GoroutineInfo option \<times> Tracer)" where
  "setGoroutine rt tr =
     (let gid = GoroutineID rt in
      case setGoroutine_switch rt tr of
        Inl e \<Rightarrow> Inl e
      | Inr (go_on, changed, tr3) \<Rightarrow>
          if \<not> go_on then Inr (False, True, None, tr3)
          else
            (let tr4 = tr3\<lparr>goroutineID := gid\<rparr> in
             case goroutines tr4 of
               None \<Rightarrow> Inl NilMapWrite
             | Some m \<Rightarrow>
                 (case m (goroutineID tr4) of
                    None \<Rightarrow>
                      (let goroutine = \<lparr>ID = gid, Frames = [], TopMessage = [], History = []\<rparr>
                       in Inr (True, changed, Some goroutine,
                               tr4\<lparr>goroutines := Some (m(gid \<mapsto> goroutine))\<rparr>))
                  | Some goroutine \<Rightarrow> Inr (True, changed, Some goroutine, tr4))))"

definition store_goroutine :: "Tracer \<Rightarrow> GoroutineInfo \<Rightarrow> Tracer" where
  "store_goroutine tr goroutine =
     tr\<lparr>goroutines := map_option (\<lambda>m. m(goroutineID tr \<mapsto> goroutine)) (goroutines tr)\<rparr>"

section \<open>Capture and message\<close>

text \<open>
  \<open>runtime.Frames.Next\<close> on the frames still to come: the next frame, whether more
  follow it, and the rest. With nothing left it returns the zero frame and false.
\<close>

definition Next :: "runtime_Frame list \<Rightarrow> runtime_Frame \<times> bool \<times> runtime_Frame list" where
  "Next frames = (case frames of
     [] \<Rightarrow> (zero_Frame, False, [])
   | f # rest \<Rightarrow> (f, rest \<noteq> [], rest))"

function getFrameInfos_loop ::
  "runtime_Frame list \<Rightarrow> FrameInfo_ptr list \<Rightarrow> Time \<Rightarrow> FrameInfo_ptr list" where
  "getFrameInfos_loop frames allFrameInfos now =
     (case Next frames of (newFrameInfo, more', frames') \<Rightarrow>
        (let allFrameInfos' = allFrameInfos @ [from_frame newFrameInfo now]
         in if \<not> more' then allFrameInfos'
            else getFrameInfos_loop frames' allFrameInfos' now))"
  by pat_completeness auto
termination
  by (relation "measure (\<lambda>(frames, allFrameInfos, now). length frames)")
     (auto simp: Next_def split: list.splits)

definition runtimeFrames :: "Runtime \<Rightarrow> int \<Rightarrow> int \<Rightarrow> runtime_Frame list" where
  "runtimeFrames rt skip capacity = Callers rt (2 + skip) capacity"

definition getFrameInfos :: "Runtime \<Rightarrow> int \<Rightarrow> int \<Rightarrow> Time \<Rightarrow> FrameInfo_ptr list" where
  "getFrameInfos rt skip capacity now =
     getFrameInfos_loop (runtimeFrames rt (skip + 1) capacity) [] now"

definition messageFrom :: "Runtime \<Rightarrow> Value list \<Rightarrow> string" where
  "messageFrom rt args =
     (let num = length args in
      if num > 0 then
        (case hd args of
           VString format \<Rightarrow> Sprintf rt format (if num > 1 then drop 1 args else [])
         | _ \<Rightarrow> Sprintf rt (Repeat_nat ''%v '' num) args)
      else [])"

section \<open>Printing\<close>

fun printHistory_loop :: "Tracer \<Rightarrow> string list \<Rightarrow> fault + Tracer" where
  "printHistory_loop tr [] = Inr tr"
| "printHistory_loop tr (line # rest) =
     (case Out_Println tr [VString line] of
        Inl e \<Rightarrow> Inl e
      | Inr tr' \<Rightarrow> printHistory_loop tr' rest)"

definition printHistory :: "Tracer \<Rightarrow> GoroutineInfo \<Rightarrow> fault + Tracer" where
  "printHistory tr goroutine = printHistory_loop tr (History goroutine)"

function indentation_loop :: "string list \<Rightarrow> int \<Rightarrow> fault + string list" where
  "indentation_loop inds level =
     (if level \<ge> int (length inds) then
        (case Repeat ''  '' (int (length inds)) of
           Inl e \<Rightarrow> Inl e
         | Inr s \<Rightarrow> indentation_loop (inds @ [s]) level)
      else Inr inds)"
  by pat_completeness auto
termination
  by (relation "measure (\<lambda>(inds, level). nat (level + 1 - int (length inds)))") auto

definition indentation :: "Tracer \<Rightarrow> int \<Rightarrow> fault + (string \<times> Tracer)" where
  "indentation tr level = (case indentation_loop (indents tr) level of
     Inl e \<Rightarrow> Inl e
   | Inr inds \<Rightarrow> (case index_int inds level of
       Inl e \<Rightarrow> Inl e
     | Inr s \<Rightarrow> Inr (s, tr\<lparr>indents := inds\<rparr>)))"

text \<open>
  One pass through the body of the \<open>for ; idx >= 0; idx--\<close> loop of
  \<open>printFrameIndicesLowerThan\<close>, at index \<open>idx\<close>: it formats the line of
  \<open>goroutine.Frames[idx]\<close>, appends it to the history and sends it to the sink.
\<close>

definition printFrameIndicesLowerThan_body ::
  "Runtime \<Rightarrow> Tracer \<Rightarrow> GoroutineInfo \<Rightarrow> int \<Rightarrow> int \<Rightarrow> fault + (Tracer \<times> GoroutineInfo)" where
  "printFrameIndicesLowerThan_body rt tr goroutine idx markFrom =
     (case index_int (Frames goroutine) idx of
        Inl e \<Rightarrow> Inl e
      | Inr None \<Rightarrow> Inl NilDereference
      | Inr (Some frame) \<Rightarrow>
         (let location =
                (if SourceLength tr > 0 then
                   (let l = Sprintf rt ''%200s:%-4d  p%d g%-3d%%c''
                              [VString (File (Frame frame)), VInt (Line (Frame frame)),
                               VUintptr (PC (Frame frame)), VInt (ID goroutine)]
                    in if int (length l) > SourceLength tr
                       then drop (nat (int (length l) - SourceLength tr)) l else l)
                 else []);
              timestamp =
                (if \<not> OmitTime tr
                 then Time_Format rt (TimeRecorded frame) ''2006-01-02 15:04:05.00000000 ''
                 else []);
              message = (if idx = 0 then TopMessage goroutine else []);
              level = int (length (Frames goroutine)) - idx - 1
          in case indentation tr level of
               Inl e \<Rightarrow> Inl e
             | Inr (ind, tr1) \<Rightarrow>
                (let line = TrimSpace rt (Sprintf rt ''%s%s%s %s() %s''
                              [VString timestamp, VString location, VString ind,
                               VString (Function (Frame frame)), VString message]);
                     goroutine1 = goroutine\<lparr>History := History goroutine @
                                    [Sprintf rt line [VRune (calloutPrevious tr1)]]\<rparr>;
                     callout = (if idx < markFrom then calloutNew tr1 else calloutPrevious tr1)
                 in case Out_Printf tr1 line [VRune callout] of
                      Inl e \<Rightarrow> Inl e
                    | Inr tr2 \<Rightarrow> Inr (tr2, goroutine1))))"

function printFrameIndicesLowerThan_loop ::
  "Runtime \<Rightarrow> Tracer \<Rightarrow> GoroutineInfo \<Rightarrow> int \<Rightarrow> int \<Rightarrow> fault + (Tracer \<times> GoroutineInfo)" where
  "printFrameIndicesLowerThan_loop rt tr goroutine idx markFrom =
     (if idx \<ge> 0 then
        (case printFrameIndicesLowerThan_body rt tr goroutine idx markFrom of
           Inl e \<Rightarrow> Inl e
         | Inr (tr', goroutine') \<Rightarrow>
             printFrameIndicesLowerThan_loop rt tr' goroutine' (idx - 1) markFrom)
      else Inr (tr, goroutine))"
  by pat_completeness auto
termination
  by (relation "measure (\<lambda>(rt, tr, goroutine, idx, markFrom). nat (idx + 1))") auto

text \<open>
  When \<open>idx >= numFrames\<close> after the decrement, the code writes an error line to the
  standard output (not to the sink) and goes on; the loop's first read
  \<open>goroutine.Frames[idx]\<close> then panics, which the loop returns as a fault.
\<close>

definition printFrameIndicesLowerThan ::
  "Runtime \<Rightarrow> Tracer \<Rightarrow> GoroutineInfo \<Rightarrow> int \<Rightarrow> int \<Rightarrow> fault + (Tracer \<times> GoroutineInfo)" where
  "printFrameIndicesLowerThan rt tr goroutine idx markFrom =
     (let numFrames = int (length (Frames goroutine));
          idx1 = (if idx < 0 then numFrames else idx);
          markFrom1 = (if markFrom < 0 then numFrames else markFrom);
          idx2 = idx1 - 1
      in printFrameIndicesLowerThan_loop rt tr goroutine idx2 markFrom1)"

section \<open>Trace\<close>

text \<open>
  The part of \<open>Trace\<close> after the guards and \<open>setGoroutine\<close>: capture, message,
  diff, merge and printing. \<open>goroutine_ptr\<close> is the pointer that \<open>setGoroutine\<close>
  returned.
\<close>

definition Trace_tail ::
  "Runtime \<Rightarrow> int \<Rightarrow> Value list \<Rightarrow> bool \<Rightarrow> GoroutineInfo option \<Rightarrow> Tracer \<Rightarrow> fault + Tracer" where
  "Trace_tail rt skip args changedGoroutine goroutine_ptr tr =
     (case ClockFn tr of
        None \<Rightarrow> Inl NilDereference
      | Some clockFn \<Rightarrow>
         (let now = clock rt clockFn;
              allFrameInfos = getFrameInfos rt (skip + 1) (Capacity tr) now
          in case goroutine_ptr of
               None \<Rightarrow> Inl NilDereference
             | Some goroutine0 \<Rightarrow>
                (let goroutine = goroutine0\<lparr>TopMessage := messageFrom rt args\<rparr> in
                 case findLastCommonFrameIndex (Frames goroutine) allFrameInfos of
                   Inl e \<Rightarrow> Inl e
                 | Inr (lastCommonFrameStoredIdx, lastCommonFrameNewIdx) \<Rightarrow>
                    (case slice_to allFrameInfos lastCommonFrameNewIdx of
                       Inl e \<Rightarrow> Inl e
                     | Inr newFrames \<Rightarrow>
                        (case slice_from (Frames goroutine) lastCommonFrameStoredIdx of
                           Inl e \<Rightarrow> Inl e
                         | Inr storedFrames \<Rightarrow>
                            (let goroutine1 = goroutine\<lparr>Frames := newFrames @ storedFrames\<rparr>;
                                 printFrom = int lastCommonFrameNewIdx
                             in case (if changedGoroutine then
                                        (if OnGoroutineSwitchPrintStackHistory tr then
                                           (case printHistory tr goroutine1 of
                                              Inl e \<Rightarrow> Inl e
                                            | Inr tr3 \<Rightarrow> Inr (tr3, printFrom))
                                         else if OnGoroutineSwitchPrintCurrentStack tr then
                                           Inr (tr, - 1)
                                         else Inr (tr, printFrom))
                                      else Inr (tr, printFrom)) of
                                  Inl e \<Rightarrow> Inl e
                                | Inr (tr3, printFrom1) \<Rightarrow>
                                   (case printFrameIndicesLowerThan rt tr3 goroutine1
                                           printFrom1 (int lastCommonFrameNewIdx) of
                                      Inl e \<Rightarrow> Inl e
                                    | Inr (tr4, goroutine2) \<Rightarrow>
                                        Inr (store_goroutine tr4 goroutine2))))))))"

text \<open>
  \<open>Trace\<close> on a non-nil receiver. A call that returns gives \<open>Inr\<close> of the tracer after
  the call; a call that panics gives \<open>Inl\<close>.
\<close>

definition Trace :: "Runtime \<Rightarrow> int \<Rightarrow> Value list \<Rightarrow> Tracer \<Rightarrow> fault + Tracer" where
  "Trace rt skip args tr =
     (case proceed tr of
        (False, tr0) \<Rightarrow> Inr tr0
      | (True, tr1) \<Rightarrow>
         (case setGoroutine rt tr1 of
            Inl e \<Rightarrow> Inl e
          | Inr (go_on, changedGoroutine, goroutine_ptr, tr2) \<Rightarrow>
             if \<not> go_on then Inr tr2
             else Trace_tail rt skip args changedGoroutine goroutine_ptr tr2))"

section \<open>Reachable states and example inputs\<close>

text \<open>
  Every frame pointer that \<open>Trace\<close> stores comes from \<open>from\<close>, so in every state that
  \<open>Trace\<close> reaches from a new tracer the stored frames are present (not nil).
\<close>

definition frames_present :: "Tracer \<Rightarrow> bool" where
  "frames_present tr =
     (\<forall>key g. Goroutines tr key = Some g \<longrightarrow> None \<notin> set (Frames g))"

text \<open>
  The tracer that \<open>init\<close> assigns to \<open>Global\<close>; the fields that \<open>init\<close> does not set
  have their zero values. Its logger has received nothing yet.
\<close>

definition Global :: Tracer where
  "Global =
     \<lparr>On = False, Out = Some [], Capacity = 100, SourceLength = 40, LockGoroutine = False,
      OmitTime = False, ClockFn = None, OnGoroutineSwitchPrintCurrentStack = False,
      OnGoroutineSwitchPrintStackHistory = True, goroutines = None, goroutineID = 0,
      indents = [], marker = [], calloutPrevious = 0, calloutNew = 0\<rparr>"

text \<open>
  A runtime to run the model on concrete inputs: the calling goroutine is \<open>gid\<close>, its
  stack is \<open>frames\<close> at every skip depth, the clock reads \<open>now\<close>. The three
  formatting functions are stand-ins: \<open>Sprintf\<close> returns the format followed by its
  string arguments, \<open>Time_Format\<close> the layout, \<open>TrimSpace\<close> its argument. The
  theorems below hold for every runtime; the stand-ins only serve to evaluate examples.
\<close>

definition example_Sprintf :: "string \<Rightarrow> Value list \<Rightarrow> string" where
  "example_Sprintf format v =
     format @ concat (map (\<lambda>x. case x of VString s \<Rightarrow> s | _ \<Rightarrow> []) v)"

definition example_Runtime :: "int \<Rightarrow> runtime_Frame list \<Rightarrow> Time \<Rightarrow> Runtime" where
  "example_Runtime gid frames now =
     \<lparr>GoroutineID = gid, clock = (\<lambda>c. now), Callers = (\<lambda>skip capacity. frames),
      Sprintf = example_Sprintf, Time_Format = (\<lambda>t layout. layout),
      TrimSpace = (\<lambda>s. s)\<rparr>"

definition frame_at :: "string \<Rightarrow> int \<Rightarrow> runtime_Frame" where
  "frame_at function line =
     \<lparr>PC = 0, Func = None, Function = function, File = ''main.go'', Line = line, Entry = 0\<rparr>"

text \<open>
  An example run with short lines (no source location, no timestamp): goroutine 1 traces
  from \<open>main.main\<close>, goroutine 2 traces from \<open>main.worker\<close>, then goroutine 1 traces
  again from \<open>main.f\<close>, called by \<open>main.main\<close>. \<open>ex_state1\<close> and \<open>ex_state2\<close> are
  the tracer after the first and after the second call.
\<close>

definition ex_time1 :: Time where "ex_time1 = \<lparr>wall = 1, ext = 0, loc = None\<rparr>"
definition ex_time2 :: Time where "ex_time2 = \<lparr>wall = 2, ext = 0, loc = None\<rparr>"
definition ex_time3 :: Time where "ex_time3 = \<lparr>wall = 3, ext = 0, loc = None\<rparr>"

definition ex_rt1 :: Runtime where
  "ex_rt1 = example_Runtime 1 [frame_at ''main.main'' 10, frame_at ''runtime.main'' 250] ex_time1"

definition ex_rt2 :: Runtime where
  "ex_rt2 = example_Runtime 2 [frame_at ''main.worker'' 30] ex_time2"

definition ex_rt3 :: Runtime where
  "ex_rt3 = example_Runtime 1
     [frame_at ''main.f'' 20, frame_at ''main.main'' 12, frame_at ''runtime.main'' 250] ex_time3"

definition ex_start :: Tracer where
  "ex_start = Global\<lparr>On := True, SourceLength := 0, OmitTime := True\<rparr>"

definition ex_main_info :: GoroutineInfo where
  "ex_main_info =
     \<lparr>ID = 1,
      Frames = [Some \<lparr>Frame = frame_at ''main.main'' 10, TimeRecorded = ex_time1\<rparr>,
                Some \<lparr>Frame = frame_at ''runtime.main'' 250, TimeRecorded = ex_time1\<rparr>],
      TopMessage = ''Start'',
      History = [''%s%s%s %s() %sruntime.main'', ''%s%s%s %s() %s  main.mainStart'']\<rparr>"

definition ex_worker_info :: GoroutineInfo where
  "ex_worker_info =
     \<lparr>ID = 2,
      Frames = [Some \<lparr>Frame = frame_at ''main.worker'' 30, TimeRecorded = ex_time2\<rparr>],
      TopMessage = [],
      History = [''%s%s%s %s() %smain.worker'']\<rparr>"

definition ex_calls1 :: "LogCall list" where
  "ex_calls1 =
     [Printf ''%s goroutine switched: %3d -> %-3d %s'' [VString [], VInt 0, VInt 1, VString []],
      Printf ''%s%s%s %s() %sruntime.main'' [VRune 43],
      Printf ''%s%s%s %s() %s  main.mainStart'' [VRune 43]]"

definition ex_calls2 :: "LogCall list" where
  "ex_calls2 = ex_calls1 @
     [Printf ''%s goroutine switched: %3d -> %-3d %s'' [VString [], VInt 1, VInt 2, VString []],
      Printf ''%s%s%s %s() %smain.worker'' [VRune 43]]"

definition ex_state1 :: Tracer where
  "ex_state1 =
     \<lparr>On = True, Out = Some ex_calls1, Capacity = 100, SourceLength = 0, LockGoroutine = False,
      OmitTime = True, ClockFn = Some time_Now, OnGoroutineSwitchPrintCurrentStack = False,
      OnGoroutineSwitchPrintStackHistory = True,
      goroutines = Some (Map.empty(1 \<mapsto> ex_main_info)), goroutineID = 1,
      indents = [[], ''  ''], marker = [], calloutPrevious = 32, calloutNew = 43\<rparr>"

definition ex_state2 :: Tracer where
  "ex_state2 =
     \<lparr>On = True, Out = Some ex_calls2, Capacity = 100, SourceLength = 0, LockGoroutine = False,
      OmitTime = True, ClockFn = Some time_Now, OnGoroutineSwitchPrintCurrentStack = False,
      OnGoroutineSwitchPrintStackHistory = True,
      goroutines = Some (Map.empty(1 \<mapsto> ex_main_info, 2 \<mapsto> ex_worker_info)),
      goroutineID = 2,
      indents = [[], ''  ''], marker = [], calloutPrevious = 32, calloutNew = 43\<rparr>"


declare getFrameInfos_loop.simps [simp del]
declare indentation_loop.simps [simp del]
declare printFrameIndicesLowerThan_loop.simps [simp del]

declare findLastCommonFrameIndex_inner.simps [simp del]
declare findLastCommonFrameIndex_outer.simps [simp del]


section \<open>Properties of the stack diffing\<close>

lemma Same_present:
  "Same (Some f) (Some g) = Inr (Frame f = Frame g)"
  by (simp add: Same_def)

lemma inner_spec:
  assumes "None \<notin> set first" "None \<notin> set second"
    and "fi + k = length first" "si + k = length second"
  shows "\<exists>m inc'. findLastCommonFrameIndex_inner first second fi si inc = Inr (m, inc')
      \<and> (m \<longrightarrow> (\<forall>j. inc \<le> j \<and> fi + j < length first \<longrightarrow>
                  same_frames (first ! (fi + j)) (second ! (si + j))))
      \<and> (\<not> m \<longrightarrow> fi + inc' < length first
                   \<and> \<not> same_frames (first ! (fi + inc')) (second ! (si + inc')))"
  using assms
proof (induction first second fi si inc rule: findLastCommonFrameIndex_inner.induct)
  case (1 first second fi si inc)
  show ?case
  proof (cases "fi + inc < length first")
    case False
    then have "findLastCommonFrameIndex_inner first second fi si inc = Inr (True, inc)"
      by (subst findLastCommonFrameIndex_inner.simps) simp
    moreover have "\<forall>j. inc \<le> j \<and> fi + j < length first \<longrightarrow>
                  same_frames (first ! (fi + j)) (second ! (si + j))"
      using False by auto
    ultimately show ?thesis by blast
  next
    case True
    with "1.prems" have lt2: "si + inc < length second" by arith
    from True "1.prems"(1) obtain f where f: "first ! (fi + inc) = Some f"
      using nth_mem[of "fi + inc" first] by (cases "first ! (fi + inc)") auto
    from lt2 "1.prems"(2) obtain g where g: "second ! (si + inc) = Some g"
      using nth_mem[of "si + inc" second] by (cases "second ! (si + inc)") auto
    show ?thesis
    proof (cases "Frame f = Frame g")
      case False
      then have "findLastCommonFrameIndex_inner first second fi si inc = Inr (False, inc)"
        using True lt2 f g
        by (subst findLastCommonFrameIndex_inner.simps) (simp add: index_def Same_def)
      moreover have "\<not> same_frames (first ! (fi + inc)) (second ! (si + inc))"
        using f g False by (simp add: same_frames_def Same_def)
      ultimately show ?thesis using True by blast
    next
      case eq: True
      have ih: "\<exists>m inc'. findLastCommonFrameIndex_inner first second fi si (inc + 1) = Inr (m, inc')
          \<and> (m \<longrightarrow> (\<forall>j. inc + 1 \<le> j \<and> fi + j < length first \<longrightarrow>
                  same_frames (first ! (fi + j)) (second ! (si + j))))
          \<and> (\<not> m \<longrightarrow> fi + inc' < length first
                   \<and> \<not> same_frames (first ! (fi + inc')) (second ! (si + inc')))"
      proof (rule "1.IH"[OF True _ _ _ _ "1.prems"])
        show "index first (fi + inc) = Inr (Some f)" using True f by (simp add: index_def)
        show "index second (si + inc) = Inr (Some g)" using lt2 g by (simp add: index_def)
        show "Same (Some f) (Some g) = Inr True" using eq by (simp add: Same_def)
        show "\<not> \<not> True" by simp
      qed
      then obtain m inc' where r: "findLastCommonFrameIndex_inner first second fi si (inc + 1) = Inr (m, inc')"
        and rm: "m \<Longrightarrow> (\<forall>j. inc + 1 \<le> j \<and> fi + j < length first \<longrightarrow>
                  same_frames (first ! (fi + j)) (second ! (si + j)))"
        and rn: "\<not> m \<Longrightarrow> fi + inc' < length first
                   \<and> \<not> same_frames (first ! (fi + inc')) (second ! (si + inc'))" by blast
      have here: "same_frames (first ! (fi + inc)) (second ! (si + inc))"
        using f g eq by (simp add: same_frames_def Same_def)
      have all: "m \<Longrightarrow> (\<forall>j. inc \<le> j \<and> fi + j < length first \<longrightarrow>
                  same_frames (first ! (fi + j)) (second ! (si + j)))"
      proof (intro allI impI)
        fix j assume m and j: "inc \<le> j \<and> fi + j < length first"
        show "same_frames (first ! (fi + j)) (second ! (si + j))"
        proof (cases "j = inc")
          case True then show ?thesis using here by simp
        next
          case False
          with j have "inc + 1 \<le> j \<and> fi + j < length first" by arith
          with rm[OF \<open>m\<close>] show ?thesis by blast
        qed
      qed
      have "findLastCommonFrameIndex_inner first second fi si inc = Inr (m, inc')"
        using True lt2 f g eq r
        by (subst findLastCommonFrameIndex_inner.simps) (simp add: index_def Same_def)
      with all rn show ?thesis by blast
    qed
  qed
qed


lemma inner_spec0:
  assumes "None \<notin> set first" "None \<notin> set second"
    and "fi + k = length first" "si + k = length second"
  shows "\<exists>m inc'. findLastCommonFrameIndex_inner first second fi si 0 = Inr (m, inc')
      \<and> (m \<longrightarrow> (\<forall>j. fi + j < length first \<longrightarrow>
                  same_frames (first ! (fi + j)) (second ! (si + j))))
      \<and> (\<not> m \<longrightarrow> fi + inc' < length first
                   \<and> \<not> same_frames (first ! (fi + inc')) (second ! (si + inc')))"
  using inner_spec[OF assms, of 0] by simp

lemma outer_spec:
  assumes "None \<notin> set first" "None \<notin> set second"
    and "fi \<le> length first" "si \<le> length second"
    and "length first - fi = length second - si"
  shows "\<exists>oi ni. findLastCommonFrameIndex_outer first second fi si = Inr (oi, ni)
      \<and> fi \<le> oi \<and> oi \<le> length first \<and> oi + si = ni + fi
      \<and> (\<forall>j. oi + j < length first \<longrightarrow>
             same_frames (first ! (oi + j)) (second ! (ni + j)))"
  using assms
proof (induction first second fi si rule: findLastCommonFrameIndex_outer.induct)
  case (1 first second fi si)
  show ?case
  proof (cases "fi < length first")
    case False
    then have "findLastCommonFrameIndex_outer first second fi si = Inr (fi, si)"
      by (subst findLastCommonFrameIndex_outer.simps) simp
    then show ?thesis using False "1.prems"(3) by auto
  next
    case True
    have k1: "fi + (length first - fi) = length first" using True by simp
    have k2: "si + (length first - fi) = length second" using "1.prems" by simp
    from inner_spec0[OF "1.prems"(1,2) k1 k2]
    obtain m inc' where r: "findLastCommonFrameIndex_inner first second fi si 0 = Inr (m, inc')"
      and rm: "m \<Longrightarrow> (\<forall>j. fi + j < length first \<longrightarrow>
                  same_frames (first ! (fi + j)) (second ! (si + j)))"
      and rn: "\<not> m \<Longrightarrow> fi + inc' < length first" by blast
    show ?thesis
    proof (cases m)
      case True
      then have "findLastCommonFrameIndex_outer first second fi si = Inr (fi, si)"
        using \<open>fi < length first\<close> r
        by (subst findLastCommonFrameIndex_outer.simps) simp
      then show ?thesis using rm[OF True] "1.prems"(3) by auto
    next
      case False
      note lt = rn[OF False]
      have "\<exists>oi ni. findLastCommonFrameIndex_outer first second (fi + (inc' + 1)) (si + (inc' + 1))
               = Inr (oi, ni)
          \<and> fi + (inc' + 1) \<le> oi \<and> oi \<le> length first
          \<and> oi + (si + (inc' + 1)) = ni + (fi + (inc' + 1))
          \<and> (\<forall>j. oi + j < length first \<longrightarrow>
               same_frames (first ! (oi + j)) (second ! (ni + j)))"
      proof (rule "1.IH"[OF True r refl False "1.prems"(1,2)])
        show "fi + (inc' + 1) \<le> length first" using lt by simp
        show "si + (inc' + 1) \<le> length second" using lt "1.prems" by arith
        show "length first - (fi + (inc' + 1)) = length second - (si + (inc' + 1))"
          using lt "1.prems" by arith
      qed
      then obtain oi ni where
        o: "findLastCommonFrameIndex_outer first second (fi + (inc' + 1)) (si + (inc' + 1))
               = Inr (oi, ni)"
        and b: "fi + (inc' + 1) \<le> oi" "oi \<le> length first"
               "oi + (si + (inc' + 1)) = ni + (fi + (inc' + 1))"
        and sm: "\<forall>j. oi + j < length first \<longrightarrow>
               same_frames (first ! (oi + j)) (second ! (ni + j))" by blast
      have "findLastCommonFrameIndex_outer first second fi si = Inr (oi, ni)"
        using \<open>fi < length first\<close> r False o
        by (subst findLastCommonFrameIndex_outer.simps) simp
      moreover have "fi \<le> oi" "oi + si = ni + fi" using b by arith+
      ultimately show ?thesis using b(2) sm by blast
    qed
  qed
qed

lemma findLastCommonFrameIndex_spec:
  assumes "None \<notin> set first" "None \<notin> set second"
    and "first \<noteq> [] \<or> second \<noteq> []"
  shows "\<exists>oi ni. findLastCommonFrameIndex first second = Inr (oi, ni)
      \<and> oi \<le> length first \<and> ni \<le> length second
      \<and> length first - oi = length second - ni
      \<and> (\<forall>j. oi + j < length first \<longrightarrow>
             same_frames (first ! (oi + j)) (second ! (ni + j)))
      \<and> (oi, ni) \<noteq> (0, 0)"
proof -
  define fi0 where "fi0 = (if length first > length second then length first - length second else 0)"
  define si0 where "si0 = (if length first > length second then 0 else length second - length first)"
  define fi where "fi = (if fi0 = 0 \<and> si0 = 0 then fi0 + 1 else fi0)"
  define si where "si = (if fi0 = 0 \<and> si0 = 0 then si0 + 1 else si0)"
  have unf: "findLastCommonFrameIndex first second = findLastCommonFrameIndex_outer first second fi si"
    by (simp add: findLastCommonFrameIndex_def Let_def fi_def si_def fi0_def si0_def)
  have pos: "fi \<noteq> 0 \<or> si \<noteq> 0" by (simp add: fi_def si_def)
  have b1: "fi \<le> length first" and b2: "si \<le> length second"
    and b3: "length first - fi = length second - si"
  proof -
    show "fi \<le> length first" using assms(3)
      by (cases first; cases second) (auto simp: fi_def si_def fi0_def si0_def)
    show "si \<le> length second" using assms(3)
      by (cases first; cases second) (auto simp: fi_def si_def fi0_def si0_def)
    show "length first - fi = length second - si" using assms(3)
      by (cases first; cases second) (auto simp: fi_def si_def fi0_def si0_def)
  qed
  from outer_spec[OF assms(1,2) b1 b2 b3] obtain oi ni where
    r: "findLastCommonFrameIndex_outer first second fi si = Inr (oi, ni)"
    and b: "fi \<le> oi" "oi \<le> length first" "oi + si = ni + fi"
    and sm: "\<forall>j. oi + j < length first \<longrightarrow>
             same_frames (first ! (oi + j)) (second ! (ni + j))" by blast
  have "ni \<le> length second" "length first - oi = length second - ni" "(oi, ni) \<noteq> (0, 0)"
    using b b1 b2 b3 pos by auto
  with unf r b(2) sm show ?thesis by auto
qed




text \<open>The seven cases of \<open>TestFindLastCommonFrame\<close> in \<open>trace_test.go\<close>.\<close>

lemma TestFindLastCommonFrame:
  "findLastCommonFrameIndex (fromStrings [''Carol'', ''Bob'', ''Alice''])
     (fromStrings [''Carol'', ''Bob'', ''Alice'']) = Inr (1, 1)"
  "findLastCommonFrameIndex (fromStrings [''Eric'', ''Carol'', ''Bob'', ''Alice''])
     (fromStrings [''Felicia'', ''Dan'', ''Bob'', ''Alice'']) = Inr (2, 2)"
  "findLastCommonFrameIndex (fromStrings [''Bob'', ''Alice''])
     (fromStrings [''Felicia'', ''Dan'', ''Bob'', ''Alice'']) = Inr (0, 2)"
  "findLastCommonFrameIndex (fromStrings [''Eric'', ''Carol'', ''Bob'', ''Alice''])
     (fromStrings [''Bob'', ''Alice'']) = Inr (2, 0)"
  "findLastCommonFrameIndex (fromStrings [''Bob'', ''Alice'', ''Eric'', ''Carol'', ''Bob'', ''Alice''])
     (fromStrings [''Bob'', ''Alice'']) = Inr (4, 0)"
  "findLastCommonFrameIndex (fromStrings [''Eric'', ''Carol'', ''Bob'', ''Alice'']) [] = Inr (4, 0)"
  "findLastCommonFrameIndex [] (fromStrings [''Eric'', ''Carol'', ''Bob'', ''Alice'']) = Inr (0, 4)"
  by (simp_all add: findLastCommonFrameIndex_def findLastCommonFrameIndex_outer.simps
        findLastCommonFrameIndex_inner.simps index_def Same_def fromStrings_def zero_Frame_def)

lemma same_frames_present: "same_frames a b \<Longrightarrow> a \<noteq> None \<and> b \<noteq> None"
  by (auto simp: same_frames_def Same_def split: option.splits)

text \<open>
  Claim C10. \<open>Equal\<close> and \<open>Same\<close> read both frames through their pointers: with
  either operand nil the call faults with a nil dereference, and with both present they
  return the full, respectively the location-only, equality. \<open>Copy\<close> is nil-safe: it
  maps nil to nil and a present frame to a frame with the same fields.
\<close>

theorem frame_equality_needs_both_frames:
  "Equal None other = Inl NilDereference
   \<and> Equal fr None = Inl NilDereference
   \<and> Same None other = Inl NilDereference
   \<and> Same fr None = Inl NilDereference
   \<and> Equal (Some f) (Some g) = Inr (f = g)
   \<and> Same (Some f) (Some g) = Inr (Frame f = Frame g)
   \<and> Copy None = None
   \<and> Copy (Some f) = Some f"
  by (simp add: Equal_def Same_def Copy_def split: option.splits)

text \<open>
  Claim C1. For two non-empty stacks of present frames (innermost at index 0),
  \<open>findLastCommonFrameIndex\<close> returns, without a fault, indices \<open>(oi, ni)\<close> within
  the stacks such that the suffixes \<open>older[oi:]\<close> and \<open>newer[ni:]\<close> have the same
  length and are \<open>Same\<close> at every position, and \<open>(oi, ni)\<close> is not \<open>(0, 0)\<close>.
  The frames must be present because \<open>Same\<close> faults on a nil pointer (claim C10).
\<close>

theorem stack_diff_postconditions:
  assumes "older \<noteq> []" and "newer \<noteq> []"
    and "None \<notin> set older" and "None \<notin> set newer"
  shows "\<exists>oi ni. findLastCommonFrameIndex older newer = Inr (oi, ni)
      \<and> oi \<le> length older \<and> ni \<le> length newer
      \<and> length (drop oi older) = length (drop ni newer)
      \<and> list_all2 same_frames (drop oi older) (drop ni newer)
      \<and> (oi, ni) \<noteq> (0, 0)"
proof -
  from findLastCommonFrameIndex_spec[OF assms(3,4)] assms(1)
  obtain oi ni where r: "findLastCommonFrameIndex older newer = Inr (oi, ni)"
    and b: "oi \<le> length older" "ni \<le> length newer" "length older - oi = length newer - ni"
    and sm: "\<forall>j. oi + j < length older \<longrightarrow> same_frames (older ! (oi + j)) (newer ! (ni + j))"
    and nz: "(oi, ni) \<noteq> (0, 0)" by blast
  have len: "length (drop oi older) = length (drop ni newer)" using b by simp
  have "list_all2 same_frames (drop oi older) (drop ni newer)"
    unfolding list_all2_conv_all_nth
  proof (intro conjI allI impI)
    show "length (drop oi older) = length (drop ni newer)" by (rule len)
    fix i assume "i < length (drop oi older)"
    then have "oi + i < length older" by simp
    with sm have "same_frames (older ! (oi + i)) (newer ! (ni + i))" by blast
    then show "same_frames (drop oi older ! i) (drop ni newer ! i)"
      using b by (simp add: nth_drop)
  qed
  with r b len nz show ?thesis by blast
qed

text \<open>The second case of \<open>TestFindLastCommonFrame\<close> satisfies the hypotheses of C1.\<close>

theorem stack_diff_postconditions_witness:
  "fromStrings [''Eric'', ''Carol'', ''Bob'', ''Alice''] \<noteq> []
   \<and> fromStrings [''Felicia'', ''Dan'', ''Bob'', ''Alice''] \<noteq> []
   \<and> None \<notin> set (fromStrings [''Eric'', ''Carol'', ''Bob'', ''Alice''])
   \<and> None \<notin> set (fromStrings [''Felicia'', ''Dan'', ''Bob'', ''Alice''])
   \<and> (\<exists>oi ni. findLastCommonFrameIndex (fromStrings [''Eric'', ''Carol'', ''Bob'', ''Alice''])
                  (fromStrings [''Felicia'', ''Dan'', ''Bob'', ''Alice'']) = Inr (oi, ni)
      \<and> oi \<le> length (fromStrings [''Eric'', ''Carol'', ''Bob'', ''Alice''])
      \<and> ni \<le> length (fromStrings [''Felicia'', ''Dan'', ''Bob'', ''Alice''])
      \<and> length (drop oi (fromStrings [''Eric'', ''Carol'', ''Bob'', ''Alice'']))
          = length (drop ni (fromStrings [''Felicia'', ''Dan'', ''Bob'', ''Alice'']))
      \<and> list_all2 same_frames (drop oi (fromStrings [''Eric'', ''Carol'', ''Bob'', ''Alice'']))
           (drop ni (fromStrings [''Felicia'', ''Dan'', ''Bob'', ''Alice'']))
      \<and> (oi, ni) \<noteq> (0, 0))"
proof -
  have h1: "fromStrings [''Eric'', ''Carol'', ''Bob'', ''Alice''] \<noteq> []"
    by (simp add: fromStrings_def)
  have h2: "fromStrings [''Felicia'', ''Dan'', ''Bob'', ''Alice''] \<noteq> []"
    by (simp add: fromStrings_def)
  have h3: "None \<notin> set (fromStrings [''Eric'', ''Carol'', ''Bob'', ''Alice''])"
    by (simp add: fromStrings_def)
  have h4: "None \<notin> set (fromStrings [''Felicia'', ''Dan'', ''Bob'', ''Alice''])"
    by (simp add: fromStrings_def)
  from stack_diff_postconditions[OF h1 h2 h3 h4] h1 h2 h3 h4 show ?thesis by blast
qed

text \<open>
  Claim C2 says that with both stacks empty each index is 0. The code returns
  \<open>(1, 1)\<close> there: the lengths are equal, so both indices start at 0 and the guard
  against \<open>(0, 0)\<close> increments both; the loop is not entered.
\<close>

theorem stack_diff_both_empty:
  "findLastCommonFrameIndex [] [] = Inr (1, 1) \<and> findLastCommonFrameIndex [] [] \<noteq> Inr (0, 0)"
  by (simp add: findLastCommonFrameIndex_def findLastCommonFrameIndex_outer.simps)

text \<open>
  Claim C2, amended. When exactly one of the two stacks is empty, the index of the empty
  stack is 0 and the index of the other stack is its full length: both indices are the
  lengths of their stacks.
\<close>

theorem stack_diff_one_empty:
  assumes "first = [] \<or> second = []" and "\<not> (first = [] \<and> second = [])"
  shows "findLastCommonFrameIndex first second = Inr (length first, length second)"
  using assms
  by (cases first; cases second)
     (auto simp: findLastCommonFrameIndex_def findLastCommonFrameIndex_outer.simps)

text \<open>The case "first empty" of \<open>TestFindLastCommonFrame\<close>.\<close>

theorem stack_diff_one_empty_witness:
  "(([] :: FrameInfo_ptr list) = [] \<or> fromStrings [''Eric'', ''Carol'', ''Bob'', ''Alice''] = [])
   \<and> \<not> (([] :: FrameInfo_ptr list) = [] \<and> fromStrings [''Eric'', ''Carol'', ''Bob'', ''Alice''] = [])
   \<and> findLastCommonFrameIndex [] (fromStrings [''Eric'', ''Carol'', ''Bob'', ''Alice'']) = Inr (0, 4)"
proof -
  have h1: "([] :: FrameInfo_ptr list) = [] \<or> fromStrings [''Eric'', ''Carol'', ''Bob'', ''Alice''] = []"
    by simp
  have h2: "\<not> (([] :: FrameInfo_ptr list) = [] \<and> fromStrings [''Eric'', ''Carol'', ''Bob'', ''Alice''] = [])"
    by (simp add: fromStrings_def)
  from stack_diff_one_empty[OF h1 h2] h1 h2 show ?thesis by (simp add: fromStrings_def)
qed

text \<open>
  Claim C3. For two stacks of equal length at least 1 that are \<open>Same\<close> at every
  position, \<open>findLastCommonFrameIndex\<close> returns exactly \<open>(1, 1)\<close>. (\<open>list_all2\<close>
  includes the equality of the lengths.)
\<close>

theorem stack_diff_equal_stacks:
  assumes "length first \<ge> 1" and "list_all2 same_frames first second"
  shows "findLastCommonFrameIndex first second = Inr (1, 1)"
proof -
  have len: "length first = length second" using assms(2) by (rule list_all2_lengthD)
  have sm: "\<And>i. i < length first \<Longrightarrow> same_frames (first ! i) (second ! i)"
    using assms(2) by (simp add: list_all2_conv_all_nth)
  have p1: "None \<notin> set first"
  proof
    assume "None \<in> set first"
    then obtain i where "i < length first" "first ! i = None" by (auto simp: in_set_conv_nth)
    with sm[of i] show False by (auto dest: same_frames_present)
  qed
  have p2: "None \<notin> set second"
  proof
    assume "None \<in> set second"
    then obtain i where "i < length second" "second ! i = None" by (auto simp: in_set_conv_nth)
    with sm[of i] len show False by (auto dest: same_frames_present)
  qed
  have unf: "findLastCommonFrameIndex first second = findLastCommonFrameIndex_outer first second 1 1"
    using len by (simp add: findLastCommonFrameIndex_def)
  show ?thesis
  proof (cases "1 < length first")
    case False
    then show ?thesis unfolding unf
      by (subst findLastCommonFrameIndex_outer.simps) simp
  next
    case True
    have k1: "1 + (length first - 1) = length first" using assms(1) by simp
    have k2: "1 + (length first - 1) = length second" using assms(1) len by simp
    from inner_spec0[OF p1 p2 k1 k2]
    obtain m inc' where r: "findLastCommonFrameIndex_inner first second 1 1 0 = Inr (m, inc')"
      and rn: "\<not> m \<Longrightarrow> 1 + inc' < length first
                   \<and> \<not> same_frames (first ! (1 + inc')) (second ! (1 + inc'))" by blast
    have m using rn sm by blast
    then show ?thesis unfolding unf using True r
      by (subst findLastCommonFrameIndex_outer.simps) simp
  qed
qed

text \<open>
  The scenario of C3: the stacks Carol, Bob, Alice against Carol, Bob, Alice
  (the first case of \<open>TestFindLastCommonFrame\<close>) give \<open>(1, 1)\<close>.
\<close>

theorem stack_diff_equal_stacks_witness:
  "length (fromStrings [''Carol'', ''Bob'', ''Alice'']) \<ge> 1
   \<and> list_all2 same_frames (fromStrings [''Carol'', ''Bob'', ''Alice''])
        (fromStrings [''Carol'', ''Bob'', ''Alice''])
   \<and> findLastCommonFrameIndex (fromStrings [''Carol'', ''Bob'', ''Alice''])
        (fromStrings [''Carol'', ''Bob'', ''Alice'']) = Inr (1, 1)"
proof -
  have h1: "length (fromStrings [''Carol'', ''Bob'', ''Alice'']) \<ge> 1"
    by (simp add: fromStrings_def)
  have h2: "list_all2 same_frames (fromStrings [''Carol'', ''Bob'', ''Alice''])
        (fromStrings [''Carol'', ''Bob'', ''Alice''])"
    by (simp add: fromStrings_def same_frames_def Same_def)
  from stack_diff_equal_stacks[OF h1 h2] h1 h2 show ?thesis by blast
qed


section \<open>Properties of the tracer\<close>

lemma Copy_id: "Copy fr = fr"
  by (cases fr) (simp_all add: Copy_def)

lemma GoroutineInfo_Copy_id: "GoroutineInfo_Copy gi = gi"
proof -
  have "map Copy (Frames gi) = Frames gi" by (rule map_idI) (simp add: Copy_id)
  then show ?thesis by (simp add: GoroutineInfo_Copy_def)
qed

lemma Goroutines_eq: "Goroutines tr = (case goroutines tr of None \<Rightarrow> Map.empty | Some m \<Rightarrow> m)"
proof -
  have "\<And>x. map_option GoroutineInfo_Copy x = x"
    by (case_tac x) (simp_all add: GoroutineInfo_Copy_id)
  then show ?thesis by (cases "goroutines tr") (simp_all add: Goroutines_def)
qed

lemma proceed_False: "proceed tr = (False, tr0) \<Longrightarrow> tr0 = tr"
  by (auto simp: proceed_def Let_def split: if_splits)

lemma proceed_True:
  assumes "proceed tr = (True, tr1)"
  shows "Out tr1 = Out tr" "Out tr \<noteq> None" "goroutines tr1 \<noteq> None" "ClockFn tr1 \<noteq> None"
    "Goroutines tr1 = Goroutines tr" "goroutineID tr1 = goroutineID tr"
    "LockGoroutine tr1 = LockGoroutine tr" "Capacity tr1 = Capacity tr"
    "OnGoroutineSwitchPrintStackHistory tr1 = OnGoroutineSwitchPrintStackHistory tr"
    "OnGoroutineSwitchPrintCurrentStack tr1 = OnGoroutineSwitchPrintCurrentStack tr"
    "SourceLength tr1 = SourceLength tr" "marker tr1 = marker tr"
  using assms
  by (auto simp: proceed_def Let_def Goroutines_eq split: if_splits option.splits)

lemma setGoroutine_locked:
  assumes "LockGoroutine tr" "GoroutineID rt \<noteq> goroutineID tr"
  shows "setGoroutine rt tr = Inr (False, True, None, tr)"
  using assms by (simp add: setGoroutine_def setGoroutine_switch_def Let_def)

lemma getFrameInfos_loop_eq:
  "getFrameInfos_loop frames acc now =
     acc @ map (\<lambda>f. from_frame f now) (if frames = [] then [zero_Frame] else frames)"
proof (induction frames acc now rule: getFrameInfos_loop.induct)
  case (1 frames allFrameInfos now)
  show ?case
  proof (cases frames)
    case Nil
    then show ?thesis by (subst getFrameInfos_loop.simps) (simp add: Next_def)
  next
    case (Cons f rest)
    show ?thesis
    proof (cases "rest = []")
      case True
      then show ?thesis using Cons by (subst getFrameInfos_loop.simps) (simp add: Next_def)
    next
      case False
      have "getFrameInfos_loop rest (allFrameInfos @ [from_frame f now]) now =
              (allFrameInfos @ [from_frame f now]) @ map (\<lambda>f. from_frame f now) rest"
        using "1.IH"[of f "(True, rest)" True rest] Cons False
        by (simp add: Next_def)
      then show ?thesis using Cons False
        by (subst getFrameInfos_loop.simps) (simp add: Next_def)
    qed
  qed
qed

lemma getFrameInfos_props:
  "getFrameInfos rt skip capacity now \<noteq> []"
  "None \<notin> set (getFrameInfos rt skip capacity now)"
  by (auto simp: getFrameInfos_def getFrameInfos_loop_eq from_frame_def)

lemma getFrameInfos_times:
  "fr \<in> set (getFrameInfos rt skip capacity now) \<Longrightarrow> \<exists>f. fr = Some f \<and> TimeRecorded f = now"
  by (auto simp: getFrameInfos_def getFrameInfos_loop_eq from_frame_def)

lemma indentation_loop_total:
  "\<exists>inds'. indentation_loop inds level = Inr inds' \<and> level < int (length inds')"
proof (induction inds level rule: indentation_loop.induct)
  case (1 inds level)
  show ?case
  proof (cases "level \<ge> int (length inds)")
    case False
    then show ?thesis by (subst indentation_loop.simps) simp
  next
    case True
    have r: "Repeat ''  '' (int (length inds)) = Inr (Repeat_nat ''  '' (length inds))"
      by (simp add: Repeat_def)
    from "1.IH"[OF True r] obtain inds' where
      "indentation_loop (inds @ [Repeat_nat ''  '' (length inds)]) level = Inr inds'"
      "level < int (length inds')" by blast
    then show ?thesis using True r by (subst indentation_loop.simps) simp
  qed
qed

lemma indentation_total:
  assumes "0 \<le> level"
  shows "\<exists>s inds. indentation tr level = Inr (s, tr\<lparr>indents := inds\<rparr>)"
proof -
  from indentation_loop_total[of "indents tr" level] obtain inds' where
    "indentation_loop (indents tr) level = Inr inds'" "level < int (length inds')" by blast
  then show ?thesis using assms by (auto simp: indentation_def index_int_def)
qed

lemma indentation_result:
  "indentation tr level = Inr (s, tr1) \<Longrightarrow> \<exists>inds. tr1 = tr\<lparr>indents := inds\<rparr>"
  by (auto simp: indentation_def split: sum.splits)

lemma body_unfold:
  assumes "index_int (Frames g) idx = Inr (Some frame)"
    and "indentation tr (int (length (Frames g)) - idx - 1) = Inr (ind, tr1)"
  shows "\<exists>line. printFrameIndicesLowerThan_body rt tr g idx mf =
     (case Out_Printf tr1 line
             [VRune (if idx < mf then calloutNew tr1 else calloutPrevious tr1)] of
        Inl e \<Rightarrow> Inl e
      | Inr tr2 \<Rightarrow>
          Inr (tr2, g\<lparr>History := History g @ [Sprintf rt line [VRune (calloutPrevious tr1)]]\<rparr>))"
  unfolding printFrameIndicesLowerThan_body_def Let_def
  apply (simp only: assms sum.case option.case prod.case)
  apply (rule exI)
  apply (rule refl)
  done

lemma body_result:
  assumes "printFrameIndicesLowerThan_body rt tr g idx mf = Inr (tr', g')"
  shows "\<exists>calls line inds. Out tr = Some calls
     \<and> tr' = tr\<lparr>indents := inds,
              Out := Some (calls @ [Printf line
                 [VRune (if idx < mf then calloutNew tr else calloutPrevious tr)]])\<rparr>
     \<and> g' = g\<lparr>History := History g @ [Sprintf rt line [VRune (calloutPrevious tr)]]\<rparr>"
proof -
  from assms obtain frame where ix: "index_int (Frames g) idx = Inr (Some frame)"
    by (cases "index_int (Frames g) idx")
       (auto simp: printFrameIndicesLowerThan_body_def split: option.splits)
  from assms ix obtain ind tr1 where
    ind: "indentation tr (int (length (Frames g)) - idx - 1) = Inr (ind, tr1)"
    by (cases "indentation tr (int (length (Frames g)) - idx - 1)")
       (auto simp: printFrameIndicesLowerThan_body_def Let_def)
  from indentation_result[OF ind] obtain inds where tr1: "tr1 = tr\<lparr>indents := inds\<rparr>" by blast
  from body_unfold[OF ix ind, of rt mf] obtain line where
    b: "printFrameIndicesLowerThan_body rt tr g idx mf =
     (case Out_Printf tr1 line
             [VRune (if idx < mf then calloutNew tr1 else calloutPrevious tr1)] of
        Inl e \<Rightarrow> Inl e
      | Inr tr2 \<Rightarrow>
          Inr (tr2, g\<lparr>History := History g @ [Sprintf rt line [VRune (calloutPrevious tr1)]]\<rparr>))"
    by blast
  from assms b obtain calls where c: "Out tr = Some calls"
    by (cases "Out tr") (auto simp: Out_Printf_def tr1)
  from assms b c have
    "tr' = tr\<lparr>indents := inds,
              Out := Some (calls @ [Printf line
                 [VRune (if idx < mf then calloutNew tr else calloutPrevious tr)]])\<rparr>"
    "g' = g\<lparr>History := History g @ [Sprintf rt line [VRune (calloutPrevious tr)]]\<rparr>"
    by (auto simp: Out_Printf_def tr1)
  with c show ?thesis by blast
qed

lemma body_total:
  assumes "0 \<le> idx" "idx < int (length (Frames g))" "None \<notin> set (Frames g)" "Out tr \<noteq> None"
  shows "\<exists>tr' g'. printFrameIndicesLowerThan_body rt tr g idx mf = Inr (tr', g')"
proof -
  have "nat idx < length (Frames g)" using assms(1,2) by simp
  then have "Frames g ! nat idx \<in> set (Frames g)" by (rule nth_mem)
  with assms(3) obtain frame where fr: "Frames g ! nat idx = Some frame"
    by (cases "Frames g ! nat idx") auto
  have ix: "index_int (Frames g) idx = Inr (Some frame)"
    using assms(1,2) fr by (simp add: index_int_def)
  have "0 \<le> int (length (Frames g)) - idx - 1" using assms(2) by simp
  from indentation_total[OF this, of tr] obtain s inds where
    ind: "indentation tr (int (length (Frames g)) - idx - 1) = Inr (s, tr\<lparr>indents := inds\<rparr>)"
    by blast
  from assms(4) obtain calls where "Out tr = Some calls" by auto
  then show ?thesis using ix ind
    by (simp add: printFrameIndicesLowerThan_body_def Let_def Out_Printf_def)
qed

lemma printHistory_loop_result:
  "printHistory_loop tr hs = Inr tr' \<Longrightarrow> tr' = tr\<lparr>Out := Out tr'\<rparr>"
proof (induction hs arbitrary: tr)
  case Nil
  then show ?case by simp
next
  case (Cons h hs)
  from Cons.prems obtain tr1 where a: "Out_Println tr [VString h] = Inr tr1"
    and b: "printHistory_loop tr1 hs = Inr tr'" by (auto split: sum.splits)
  from a have "tr1 = tr\<lparr>Out := Out tr1\<rparr>" by (auto simp: Out_Println_def split: option.splits)
  moreover from Cons.IH[OF b] have "tr' = tr1\<lparr>Out := Out tr'\<rparr>" .
  ultimately show ?case by (metis Tracer.update_convs(2) Tracer.surjective Tracer.select_convs(2))
qed

lemma printHistory_loop_total:
  "Out tr = Some calls \<Longrightarrow>
   printHistory_loop tr hs = Inr (tr\<lparr>Out := Some (calls @ map (\<lambda>l. Println [VString l]) hs)\<rparr>)"
proof (induction hs arbitrary: tr calls)
  case Nil
  then show ?case by simp
next
  case (Cons h hs)
  have a: "Out_Println tr [VString h] = Inr (tr\<lparr>Out := Some (calls @ [Println [VString h]])\<rparr>)"
    using Cons.prems by (simp add: Out_Println_def)
  have "Out (tr\<lparr>Out := Some (calls @ [Println [VString h]])\<rparr>) = Some (calls @ [Println [VString h]])"
    by simp
  from Cons.IH[OF this] a show ?case by simp
qed

lemma loop_result:
  assumes "printFrameIndicesLowerThan_loop rt tr g idx mf = Inr (tr', g')"
  shows "tr' = tr\<lparr>indents := indents tr', Out := Out tr'\<rparr>
     \<and> (\<exists>hs. g' = g\<lparr>History := History g @ hs\<rparr> \<and> length hs = nat (idx + 1))
     \<and> (\<forall>calls. Out tr = Some calls \<longrightarrow>
           (\<exists>lines. Out tr' = Some (calls @ lines) \<and> length lines = nat (idx + 1)
              \<and> (idx < mf \<longrightarrow> (\<forall>c \<in> set lines. \<exists>l. c = Printf l [VRune (calloutNew tr)]))))"
  using assms
proof (induction rt tr g idx mf rule: printFrameIndicesLowerThan_loop.induct)
  case (1 rt tr g idx mf)
  show ?case
  proof (cases "idx \<ge> 0")
    case False
    with "1.prems" have "Inr (tr, g) = (Inr (tr', g') :: fault + (Tracer \<times> GoroutineInfo))"
      by (subst (asm) printFrameIndicesLowerThan_loop.simps) simp
    then have "tr' = tr" "g' = g" by simp_all
    then show ?thesis using False by simp
  next
    case True
    from "1.prems" True obtain tr1 g1 where
      b: "printFrameIndicesLowerThan_body rt tr g idx mf = Inr (tr1, g1)"
      and l: "printFrameIndicesLowerThan_loop rt tr1 g1 (idx - 1) mf = Inr (tr', g')"
      by (subst (asm) printFrameIndicesLowerThan_loop.simps) (auto split: sum.splits)
    from body_result[OF b] obtain calls line inds where
      c: "Out tr = Some calls"
      and t1: "tr1 = tr\<lparr>indents := inds,
              Out := Some (calls @ [Printf line
                 [VRune (if idx < mf then calloutNew tr else calloutPrevious tr)]])\<rparr>"
      and g1: "g1 = g\<lparr>History := History g @ [Sprintf rt line [VRune (calloutPrevious tr)]]\<rparr>"
      by blast
    note ih = "1.IH"[OF True b refl l]
    from ih have a1: "tr' = tr1\<lparr>indents := indents tr', Out := Out tr'\<rparr>" by blast
    from ih obtain hs where h: "g' = g1\<lparr>History := History g1 @ hs\<rparr>"
      and hl: "length hs = nat (idx - 1 + 1)" by blast
    have o1: "Out tr1 = Some (calls @ [Printf line
                 [VRune (if idx < mf then calloutNew tr else calloutPrevious tr)]])"
      by (simp add: t1)
    from ih o1 obtain lines where
      o: "Out tr' = Some ((calls @ [Printf line
                 [VRune (if idx < mf then calloutNew tr else calloutPrevious tr)]]) @ lines)"
      and ll: "length lines = nat (idx - 1 + 1)"
      and lm: "idx - 1 < mf \<Longrightarrow> (\<forall>c \<in> set lines. \<exists>l. c = Printf l [VRune (calloutNew tr1)])"
      by blast
    have p1: "tr' = tr\<lparr>indents := indents tr', Out := Out tr'\<rparr>"
      by (subst a1) (simp add: t1)
    have p2: "\<exists>hs. g' = g\<lparr>History := History g @ hs\<rparr> \<and> length hs = nat (idx + 1)"
    proof (intro exI conjI)
      show "g' = g\<lparr>History := History g @ ([Sprintf rt line [VRune (calloutPrevious tr)]] @ hs)\<rparr>"
        by (simp add: h g1)
      show "length ([Sprintf rt line [VRune (calloutPrevious tr)]] @ hs) = nat (idx + 1)"
        using hl True by simp
    qed
    have p3: "\<exists>lines. Out tr' = Some (calls @ lines) \<and> length lines = nat (idx + 1)
              \<and> (idx < mf \<longrightarrow> (\<forall>c \<in> set lines. \<exists>l. c = Printf l [VRune (calloutNew tr)]))"
    proof (intro exI conjI impI)
      show "Out tr' = Some (calls @ ([Printf line
                 [VRune (if idx < mf then calloutNew tr else calloutPrevious tr)]] @ lines))"
        using o by simp
      show "length ([Printf line
                 [VRune (if idx < mf then calloutNew tr else calloutPrevious tr)]] @ lines)
             = nat (idx + 1)"
        using ll True by simp
      assume lt: "idx < mf"
      then have "idx - 1 < mf" by simp
      from lm[OF this] have "\<forall>c \<in> set lines. \<exists>l. c = Printf l [VRune (calloutNew tr)]"
        by (simp add: t1)
      then show "\<forall>c \<in> set ([Printf line
                 [VRune (if idx < mf then calloutNew tr else calloutPrevious tr)]] @ lines).
                   \<exists>l. c = Printf l [VRune (calloutNew tr)]"
        using lt by simp
    qed
    from p1 p2 p3 c show ?thesis by simp
  qed
qed

lemma loop_total:
  assumes "- 1 \<le> idx" "idx < int (length (Frames g))" "None \<notin> set (Frames g)" "Out tr \<noteq> None"
  shows "\<exists>tr' g'. printFrameIndicesLowerThan_loop rt tr g idx mf = Inr (tr', g')"
  using assms
proof (induction rt tr g idx mf rule: printFrameIndicesLowerThan_loop.induct)
  case (1 rt tr g idx mf)
  show ?case
  proof (cases "idx \<ge> 0")
    case False
    then show ?thesis by (subst printFrameIndicesLowerThan_loop.simps) simp
  next
    case True
    from body_total[OF True "1.prems"(2,3,4), of rt mf] obtain tr1 g1 where
      b: "printFrameIndicesLowerThan_body rt tr g idx mf = Inr (tr1, g1)" by blast
    from body_result[OF b] have f: "Frames g1 = Frames g" and o: "Out tr1 \<noteq> None" by auto
    have "\<exists>tr' g'. printFrameIndicesLowerThan_loop rt tr1 g1 (idx - 1) mf = Inr (tr', g')"
    proof (rule "1.IH"[OF True b refl])
      show "- 1 \<le> idx - 1" using True by simp
      show "idx - 1 < int (length (Frames g1))" using "1.prems"(2) f by simp
      show "None \<notin> set (Frames g1)" using "1.prems"(3) f by simp
      show "Out tr1 \<noteq> None" by (rule o)
    qed
    then show ?thesis using True b
      by (subst printFrameIndicesLowerThan_loop.simps) simp
  qed
qed

lemma setGoroutine_switch_result:
  assumes "setGoroutine_switch rt tr = Inr (True, changed, tr3)"
  shows "changed = (GoroutineID rt \<noteq> goroutineID tr)
     \<and> tr3 = tr\<lparr>marker := marker tr3, Out := Out tr3\<rparr>
     \<and> (\<not> changed \<longrightarrow> tr3 = tr)
     \<and> (changed \<longrightarrow> \<not> LockGoroutine tr \<and> (\<exists>calls. Out tr = Some calls \<and>
           Out tr3 = Some (calls @ [Printf ''%s goroutine switched: %3d -> %-3d %s''
              [VString (marker tr3), VInt (goroutineID tr), VInt (GoroutineID rt),
               VString (marker tr3)]])))"
proof (cases "GoroutineID rt \<noteq> goroutineID tr")
  case False
  with assms show ?thesis by (simp add: setGoroutine_switch_def)
next
  case True
  with assms have nl: "\<not> LockGoroutine tr"
    by (auto simp: setGoroutine_switch_def Let_def split: if_splits)
  define tr1 where "tr1 = (if int (length (marker tr)) \<noteq> SourceLength tr
      then tr\<lparr>marker := Repeat_nat ''-'' (nat (SourceLength tr))\<rparr> else tr)"
  have m: "(if int (length (marker tr)) \<noteq> SourceLength tr
                  then (case Repeat ''-'' (SourceLength tr) of
                          Inl e \<Rightarrow> Inl e
                        | Inr m \<Rightarrow> Inr (tr\<lparr>marker := m\<rparr>))
                  else Inr tr) = Inr tr1"
    using assms True nl
    by (cases "SourceLength tr < 0")
       (auto simp: setGoroutine_switch_def Let_def Repeat_def tr1_def split: if_splits)
  define mk where "mk = (if int (length (marker tr)) \<noteq> SourceLength tr
      then Repeat_nat ''-'' (nat (SourceLength tr)) else marker tr)"
  have t1: "tr1 = tr\<lparr>marker := mk\<rparr>" by (simp add: tr1_def mk_def)
  from assms True nl m have
    p: "Out_Printf tr1 ''%s goroutine switched: %3d -> %-3d %s''
           [VString (marker tr1), VInt (goroutineID tr1), VInt (GoroutineID rt),
            VString (marker tr1)] = Inr tr3" and c: changed
    by (auto simp: setGoroutine_switch_def Let_def split: sum.splits)
  from p obtain calls where o: "Out tr1 = Some calls"
    and t3: "tr3 = tr1\<lparr>Out := Some (calls @ [Printf ''%s goroutine switched: %3d -> %-3d %s''
           [VString (marker tr1), VInt (goroutineID tr1), VInt (GoroutineID rt),
            VString (marker tr1)]])\<rparr>"
    by (auto simp: Out_Printf_def split: option.splits)
  have o0: "Out tr = Some calls" using o by (simp add: t1)
  have e: "tr3 = tr\<lparr>marker := mk, Out := Some (calls @
           [Printf ''%s goroutine switched: %3d -> %-3d %s''
              [VString mk, VInt (goroutineID tr), VInt (GoroutineID rt), VString mk]])\<rparr>"
    using t3 by (simp add: t1)
  have "tr3 = tr\<lparr>marker := marker tr3, Out := Out tr3\<rparr>"
    by (subst e, subst e, subst e) simp
  moreover have "Out tr3 = Some (calls @ [Printf ''%s goroutine switched: %3d -> %-3d %s''
              [VString (marker tr3), VInt (goroutineID tr), VInt (GoroutineID rt),
               VString (marker tr3)]])"
    by (subst e, subst e, subst e) simp
  ultimately show ?thesis using True c nl o0 by simp
qed

lemma setGoroutine_result:
  assumes "setGoroutine rt tr = Inr (True, changed, gp, tr2)"
  shows "\<exists>m0 g tr3. goroutines tr = Some m0
     \<and> setGoroutine_switch rt tr = Inr (True, changed, tr3)
     \<and> g = (case m0 (GoroutineID rt) of
              None \<Rightarrow> \<lparr>ID = GoroutineID rt, Frames = [], TopMessage = [], History = []\<rparr>
            | Some g0 \<Rightarrow> g0)
     \<and> gp = Some g
     \<and> tr2 = tr3\<lparr>goroutineID := GoroutineID rt,
                  goroutines := Some (m0(GoroutineID rt \<mapsto> g))\<rparr>"
proof -
  from assms obtain tr3 where sw: "setGoroutine_switch rt tr = Inr (True, changed, tr3)"
    by (auto simp: setGoroutine_def Let_def split: sum.splits if_splits option.splits)
  from setGoroutine_switch_result[OF sw] have "tr3 = tr\<lparr>marker := marker tr3, Out := Out tr3\<rparr>"
    by blast
  then have gs: "goroutines tr3 = goroutines tr"
    by (metis Tracer.select_convs(10) Tracer.surjective Tracer.update_convs(2) Tracer.update_convs(13))
  from assms sw obtain m0 where m0: "goroutines tr3 = Some m0"
    by (cases "goroutines tr3") (auto simp: setGoroutine_def Let_def)
  show ?thesis
  proof (cases "m0 (GoroutineID rt)")
    case None
    with assms sw m0 gs show ?thesis by (auto simp: setGoroutine_def Let_def)
  next
    case (Some g0)
    with assms sw m0 have r: "gp = Some g0" "tr2 = tr3\<lparr>goroutineID := GoroutineID rt\<rparr>"
      by (simp_all add: setGoroutine_def Let_def)
    have "m0(GoroutineID rt \<mapsto> g0) = m0" using Some by (rule map_upd_triv)
    then have "tr3\<lparr>goroutineID := GoroutineID rt,
                  goroutines := Some (m0(GoroutineID rt \<mapsto> g0))\<rparr>
               = tr3\<lparr>goroutineID := GoroutineID rt\<rparr>"
      by (simp add: m0[symmetric])
    with r Some sw m0 gs show ?thesis by simp
  qed
qed

lemma store_goroutine_Goroutines:
  assumes "goroutines tr = Some m"
  shows "Goroutines (store_goroutine tr g) = m(goroutineID tr \<mapsto> g)"
  using assms by (simp add: Goroutines_eq store_goroutine_def)

lemma Trace_tail_result:
  assumes cf: "ClockFn tr = Some cf" and out: "Out tr = Some calls"
    and pres: "None \<notin> set (Frames g)"
    and cap: "captured = getFrameInfos rt (skip + 1) (Capacity tr) (clock rt cf)"
    and hist: "printed = (if changed \<and> OnGoroutineSwitchPrintStackHistory tr
                         then map (\<lambda>l. Println [VString l]) (History g) else [])"
  shows "\<exists>oi ni tr4 g2 hs lines.
      findLastCommonFrameIndex (Frames g) captured = Inr (oi, ni)
    \<and> oi \<le> length (Frames g) \<and> ni \<le> length captured
    \<and> length (Frames g) - oi = length captured - ni
    \<and> (\<forall>j. oi + j < length (Frames g) \<longrightarrow>
           same_frames (Frames g ! (oi + j)) (captured ! (ni + j)))
    \<and> Trace_tail rt skip args changed (Some g) tr = Inr (store_goroutine tr4 g2)
    \<and> g2 = g\<lparr>Frames := take ni captured @ drop oi (Frames g),
             TopMessage := messageFrom rt args, History := History g @ hs\<rparr>
    \<and> tr4 = tr\<lparr>indents := indents tr4, Out := Out tr4\<rparr>
    \<and> Out tr4 = Some (calls @ printed @ lines)
    \<and> length lines = length hs
    \<and> ((changed \<longrightarrow> OnGoroutineSwitchPrintStackHistory tr
                     \<or> \<not> OnGoroutineSwitchPrintCurrentStack tr) \<longrightarrow>
          length lines = ni \<and> (\<forall>c \<in> set lines. \<exists>l. c = Printf l [VRune (calloutNew tr)]))"
proof -
  have cne: "captured \<noteq> []" and cpres: "None \<notin> set captured"
    unfolding cap by (rule getFrameInfos_props)+
  from findLastCommonFrameIndex_spec[OF pres cpres] cne obtain oi ni where
    d: "findLastCommonFrameIndex (Frames g) captured = Inr (oi, ni)"
    and b1: "oi \<le> length (Frames g)" and b2: "ni \<le> length captured"
    and b3: "length (Frames g) - oi = length captured - ni"
    and sm: "\<forall>j. oi + j < length (Frames g) \<longrightarrow>
           same_frames (Frames g ! (oi + j)) (captured ! (ni + j))"
    by blast
  define g1 where "g1 = g\<lparr>TopMessage := messageFrom rt args,
                         Frames := take ni captured @ drop oi (Frames g)\<rparr>"
  define tr3 where "tr3 = tr\<lparr>Out := Some (calls @ printed)\<rparr>"
  define printFrom1 where "printFrom1 =
     (if changed \<and> \<not> OnGoroutineSwitchPrintStackHistory tr
          \<and> OnGoroutineSwitchPrintCurrentStack tr then - 1 else int ni)"
  have pre: "(if changed then
                (if OnGoroutineSwitchPrintStackHistory tr then
                   (case printHistory tr g1 of
                      Inl e \<Rightarrow> Inl e
                    | Inr tr3 \<Rightarrow> Inr (tr3, int ni))
                 else if OnGoroutineSwitchPrintCurrentStack tr then
                   Inr (tr, - 1)
                 else Inr (tr, int ni))
              else Inr (tr, int ni)) = Inr (tr3, printFrom1)"
    using out printHistory_loop_total[OF out, of "History g"]
    by (simp add: printHistory_def g1_def tr3_def printFrom1_def hist)
  have len1: "length (Frames g1) = length captured"
    using b1 b2 b3 by (simp add: g1_def)
  have pres1: "None \<notin> set (Frames g1)"
  proof -
    have "set (take ni captured) \<subseteq> set captured" by (rule set_take_subset)
    moreover have "set (drop oi (Frames g)) \<subseteq> set (Frames g)" by (rule set_drop_subset)
    ultimately show ?thesis using pres cpres by (auto simp: g1_def)
  qed
  define idx2 where "idx2 = (if printFrom1 < 0 then int (length (Frames g1)) else printFrom1) - 1"
  have pf: "printFrameIndicesLowerThan rt tr3 g1 printFrom1 (int ni) =
              printFrameIndicesLowerThan_loop rt tr3 g1 idx2 (int ni)"
    by (simp add: printFrameIndicesLowerThan_def Let_def idx2_def)
  have i1: "- 1 \<le> idx2" by (simp add: idx2_def printFrom1_def)
  have i2: "idx2 < int (length (Frames g1))"
    using b2 len1 by (simp add: idx2_def printFrom1_def)
  have o3: "Out tr3 = Some (calls @ printed)" by (simp add: tr3_def)
  then have o3': "Out tr3 \<noteq> None" by simp
  from loop_total[OF i1 i2 pres1 o3', of rt "int ni"] obtain tr4 g2 where
    l: "printFrameIndicesLowerThan_loop rt tr3 g1 idx2 (int ni) = Inr (tr4, g2)" by blast
  from loop_result[OF l] o3 obtain hs lines where
    r1: "tr4 = tr3\<lparr>indents := indents tr4, Out := Out tr4\<rparr>"
    and r2: "g2 = g1\<lparr>History := History g1 @ hs\<rparr>" "length hs = nat (idx2 + 1)"
    and r3: "Out tr4 = Some ((calls @ printed) @ lines)" "length lines = nat (idx2 + 1)"
    and r4: "idx2 < int ni \<Longrightarrow> (\<forall>c \<in> set lines. \<exists>l. c = Printf l [VRune (calloutNew tr3)])"
    by blast
  have tt: "Trace_tail rt skip args changed (Some g) tr = Inr (store_goroutine tr4 g2)"
    unfolding Trace_tail_def
    using cf cap[symmetric] d b1 b2 pre[unfolded g1_def] pf[unfolded g1_def] l[unfolded g1_def]
    by (simp add: Let_def slice_to_def slice_from_def)
  have q1: "g2 = g\<lparr>Frames := take ni captured @ drop oi (Frames g),
             TopMessage := messageFrom rt args, History := History g @ hs\<rparr>"
    by (simp add: r2 g1_def)
  have q2: "tr4 = tr\<lparr>indents := indents tr4, Out := Out tr4\<rparr>"
    by (subst r1) (simp add: tr3_def)
  have q3: "(changed \<longrightarrow> OnGoroutineSwitchPrintStackHistory tr
                     \<or> \<not> OnGoroutineSwitchPrintCurrentStack tr) \<longrightarrow>
          length lines = ni \<and> (\<forall>c \<in> set lines. \<exists>l. c = Printf l [VRune (calloutNew tr)])"
  proof
    assume "changed \<longrightarrow> OnGoroutineSwitchPrintStackHistory tr
                     \<or> \<not> OnGoroutineSwitchPrintCurrentStack tr"
    then have e: "idx2 = int ni - 1" by (auto simp: idx2_def printFrom1_def)
    then have "idx2 < int ni" by simp
    from r4[OF this] have "\<forall>c \<in> set lines. \<exists>l. c = Printf l [VRune (calloutNew tr)]"
      by (simp add: tr3_def)
    moreover have "length lines = ni" using r3(2) e by simp
    ultimately show "length lines = ni
        \<and> (\<forall>c \<in> set lines. \<exists>l. c = Printf l [VRune (calloutNew tr)])" by blast
  qed
  have q4: "Out tr4 = Some (calls @ printed @ lines)" using r3(1) by simp
  have q5: "length lines = length hs" using r3(2) r2(2) by simp
  show ?thesis
    apply (rule exI[of _ oi], rule exI[of _ ni], rule exI[of _ tr4], rule exI[of _ g2])
    apply (rule exI[of _ hs], rule exI[of _ lines])
    apply (intro conjI)
    apply (rule d, rule b1, rule b2, rule b3, rule sm, rule tt, rule q1, rule q2, rule q4)
    apply (rule q5, rule q3)
    done
qed

lemma setGoroutine_refused:
  assumes "setGoroutine rt tr = Inr (False, changed, gp, tr2)"
  shows "tr2 = tr \<and> gp = None"
proof -
  from assms obtain c where sw: "setGoroutine_switch rt tr = Inr (False, c, tr2)" and "gp = None"
    by (auto simp: setGoroutine_def Let_def split: sum.splits if_splits option.splits)
  moreover from sw have "tr2 = tr"
    by (auto simp: setGoroutine_switch_def Let_def split: sum.splits if_splits)
  ultimately show ?thesis by simp
qed

lemma Trace_setup:
  assumes fp: "frames_present tr"
    and pr: "proceed tr = (True, tr1)"
    and sg: "setGoroutine rt tr1 = Inr (True, changed, gp, tr2)"
  shows "\<exists>m0 g cf calls calls2.
      Goroutines tr = m0 \<and> gp = Some g
    \<and> g = (case m0 (GoroutineID rt) of
             None \<Rightarrow> \<lparr>ID = GoroutineID rt, Frames = [], TopMessage = [], History = []\<rparr>
           | Some g0 \<Rightarrow> g0)
    \<and> None \<notin> set (Frames g)
    \<and> changed = (GoroutineID rt \<noteq> goroutineID tr)
    \<and> ClockFn tr2 = Some cf \<and> Out tr = Some calls \<and> Out tr2 = Some calls2
    \<and> calls2 = (if changed
                 then calls @ [Printf ''%s goroutine switched: %3d -> %-3d %s''
                        [VString (marker tr2), VInt (goroutineID tr), VInt (GoroutineID rt),
                         VString (marker tr2)]]
                 else calls)
    \<and> goroutines tr2 = Some (m0(GoroutineID rt \<mapsto> g))
    \<and> goroutineID tr2 = GoroutineID rt
    \<and> Capacity tr2 = Capacity tr
    \<and> calloutNew tr2 = calloutNew tr1
    \<and> OnGoroutineSwitchPrintStackHistory tr2 = OnGoroutineSwitchPrintStackHistory tr
    \<and> OnGoroutineSwitchPrintCurrentStack tr2 = OnGoroutineSwitchPrintCurrentStack tr
    \<and> Trace rt skip args tr = Trace_tail rt skip args changed (Some g) tr2"
proof -
  note p = proceed_True[OF pr]
  from setGoroutine_result[OF sg] obtain m0 g tr3 where
    m0: "goroutines tr1 = Some m0"
    and sw: "setGoroutine_switch rt tr1 = Inr (True, changed, tr3)"
    and g: "g = (case m0 (GoroutineID rt) of
              None \<Rightarrow> \<lparr>ID = GoroutineID rt, Frames = [], TopMessage = [], History = []\<rparr>
            | Some g0 \<Rightarrow> g0)"
    and gp: "gp = Some g"
    and t2: "tr2 = tr3\<lparr>goroutineID := GoroutineID rt,
                  goroutines := Some (m0(GoroutineID rt \<mapsto> g))\<rparr>"
    by blast
  from setGoroutine_switch_result[OF sw] have
    ch: "changed = (GoroutineID rt \<noteq> goroutineID tr1)"
    and t3: "tr3 = tr1\<lparr>marker := marker tr3, Out := Out tr3\<rparr>"
    and nc: "\<not> changed \<Longrightarrow> tr3 = tr1"
    and c: "changed \<Longrightarrow> \<exists>calls. Out tr1 = Some calls \<and>
           Out tr3 = Some (calls @ [Printf ''%s goroutine switched: %3d -> %-3d %s''
              [VString (marker tr3), VInt (goroutineID tr1), VInt (GoroutineID rt),
               VString (marker tr3)]])"
    by blast+
  from p(1,2) obtain calls where o: "Out tr = Some calls" "Out tr1 = Some calls" by auto
  from p(4) obtain cf where cf1: "ClockFn tr1 = Some cf" by auto
  have G: "Goroutines tr = m0" using p(5) m0 by (simp add: Goroutines_eq)
  have pres: "None \<notin> set (Frames g)"
  proof (cases "m0 (GoroutineID rt)")
    case None
    then show ?thesis by (simp add: g)
  next
    case (Some g0)
    then have "Goroutines tr (GoroutineID rt) = Some g0" by (simp add: G)
    with fp have "None \<notin> set (Frames g0)" unfolding frames_present_def by blast
    then show ?thesis using Some by (simp add: g)
  qed
  have f3: "ClockFn tr3 = Some cf" "Capacity tr3 = Capacity tr" "calloutNew tr3 = calloutNew tr1"
    "OnGoroutineSwitchPrintStackHistory tr3 = OnGoroutineSwitchPrintStackHistory tr"
    "OnGoroutineSwitchPrintCurrentStack tr3 = OnGoroutineSwitchPrintCurrentStack tr"
    by (subst t3, simp add: cf1 p)+
  have m3: "marker tr2 = marker tr3" "Out tr2 = Out tr3" by (simp_all add: t2)
  have o2: "Out tr2 = Some (if changed
                 then calls @ [Printf ''%s goroutine switched: %3d -> %-3d %s''
                        [VString (marker tr2), VInt (goroutineID tr), VInt (GoroutineID rt),
                         VString (marker tr2)]]
                 else calls)"
  proof (cases changed)
    case True
    from c[OF True] o(2) show ?thesis using True by (simp add: m3 p(6))
  next
    case False
    from nc[OF False] o(2) show ?thesis using False by (simp add: m3)
  qed
  have tr: "Trace rt skip args tr = Trace_tail rt skip args changed (Some g) tr2"
    by (simp add: Trace_def pr sg gp)
  show ?thesis
    apply (rule exI[of _ m0], rule exI[of _ g], rule exI[of _ cf], rule exI[of _ calls])
    apply (rule exI[of _ "if changed
                 then calls @ [Printf ''%s goroutine switched: %3d -> %-3d %s''
                        [VString (marker tr2), VInt (goroutineID tr), VInt (GoroutineID rt),
                         VString (marker tr2)]]
                 else calls"])
    apply (intro conjI)
    apply (rule G, rule gp, rule g, rule pres)
    apply (simp add: ch p(6))
    apply (simp add: t2 f3)
    apply (rule o(1))
    apply (rule o2)
    apply (rule refl)
    apply (simp add: t2)
    apply (simp add: t2)
    apply (simp add: t2 f3)
    apply (simp add: t2 f3)
    apply (simp add: t2 f3)
    apply (simp add: t2 f3)
    apply (rule tr)
    done
qed

lemmas ex_defs = ex_time1_def ex_time2_def ex_time3_def ex_rt1_def ex_rt2_def ex_rt3_def
  ex_start_def ex_main_info_def ex_worker_info_def ex_calls1_def ex_calls2_def
  ex_state1_def ex_state2_def Global_def example_Runtime_def example_Sprintf_def frame_at_def

lemmas run_defs = Trace_def proceed_def setGoroutine_def setGoroutine_switch_def Trace_tail_def
  getFrameInfos_def runtimeFrames_def getFrameInfos_loop.simps Next_def from_frame_def
  messageFrom_def Repeat_def Repeat_nat_def findLastCommonFrameIndex_def
  findLastCommonFrameIndex_outer.simps findLastCommonFrameIndex_inner.simps index_def
  index_int_def Same_def slice_to_def slice_from_def printHistory_def
  printFrameIndicesLowerThan_def printFrameIndicesLowerThan_loop.simps
  printFrameIndicesLowerThan_body_def indentation_def indentation_loop.simps
  Out_Printf_def Out_Println_def store_goroutine_def Let_def

lemma ex_run1: "Trace ex_rt1 0 [VString ''Start''] ex_start = Inr ex_state1"
  by (simp add: ex_defs run_defs)

lemma ex_run2: "Trace ex_rt2 0 [] ex_state1 = Inr ex_state2"
  by (simp add: ex_defs run_defs fun_upd_twist)


text \<open>
  Claim C7. When \<open>LockGoroutine\<close> is set and the calling goroutine's id differs from
  the last-seen id, the call returns without a fault, the sink has received nothing
  (not even the marker of a goroutine switch), and the tracked state is unchanged: the
  snapshot of the map from goroutine ids to their states (frames, top message and
  history of each) and the last-seen goroutine id are the same as before the call. The
  tracer after the call is the tracer as \<open>proceed\<close> leaves it: at most the nil map has
  become the empty map and the clock function has been set.
\<close>

theorem trace_refused_when_locked:
  assumes "LockGoroutine tr" and "GoroutineID rt \<noteq> goroutineID tr"
  shows "\<exists>tr'. Trace rt skip args tr = Inr tr' \<and> tr' = snd (proceed tr)
     \<and> Out tr' = Out tr
     \<and> Goroutines tr' = Goroutines tr \<and> goroutineID tr' = goroutineID tr"
proof (cases "proceed tr")
  case (Pair b tr1)
  show ?thesis
  proof (cases b)
    case False
    with Pair have "tr1 = tr" by (simp add: proceed_False)
    then show ?thesis using Pair False by (simp add: Trace_def)
  next
    case True
    from Pair True have pt: "proceed tr = (True, tr1)" by simp
    note p = proceed_True[OF pt]
    have "setGoroutine rt tr1 = Inr (False, True, None, tr1)"
      using assms p(6,7) by (simp add: setGoroutine_locked)
    then have "Trace rt skip args tr = Inr tr1" using Pair True by (simp add: Trace_def)
    then show ?thesis using p(1,5,6) pt by simp
  qed
qed

text \<open>A call from goroutine 1 on the example state, locked to goroutine 2.\<close>

theorem trace_refused_when_locked_witness:
  "LockGoroutine (ex_state2\<lparr>LockGoroutine := True\<rparr>)
   \<and> GoroutineID ex_rt3 \<noteq> goroutineID (ex_state2\<lparr>LockGoroutine := True\<rparr>)
   \<and> (\<exists>tr'. Trace ex_rt3 0 [] (ex_state2\<lparr>LockGoroutine := True\<rparr>) = Inr tr'
        \<and> tr' = snd (proceed (ex_state2\<lparr>LockGoroutine := True\<rparr>))
        \<and> Out tr' = Out (ex_state2\<lparr>LockGoroutine := True\<rparr>)
        \<and> Goroutines tr' = Goroutines (ex_state2\<lparr>LockGoroutine := True\<rparr>)
        \<and> goroutineID tr' = goroutineID (ex_state2\<lparr>LockGoroutine := True\<rparr>))"
proof -
  have h1: "LockGoroutine (ex_state2\<lparr>LockGoroutine := True\<rparr>)" by simp
  have h2: "GoroutineID ex_rt3 \<noteq> goroutineID (ex_state2\<lparr>LockGoroutine := True\<rparr>)"
    by (simp add: ex_rt3_def ex_state2_def example_Runtime_def)
  from trace_refused_when_locked[OF h1 h2, of 0 "[]"] h1 h2 show ?thesis by blast
qed



lemma Trace_proceeds:
  assumes fp: "frames_present tr"
    and pr: "proceed tr = (True, tr1)"
    and sg: "setGoroutine rt tr1 = Inr (True, changed, Some g, tr2)"
  shows "\<exists>cf calls oi ni tr' g' hs lines.
      ClockFn tr2 = Some cf \<and> Out tr = Some calls
    \<and> None \<notin> set (Frames g)
    \<and> getFrameInfos rt (skip + 1) (Capacity tr2) (clock rt cf) \<noteq> []
    \<and> None \<notin> set (getFrameInfos rt (skip + 1) (Capacity tr2) (clock rt cf))
    \<and> findLastCommonFrameIndex (Frames g)
          (getFrameInfos rt (skip + 1) (Capacity tr2) (clock rt cf)) = Inr (oi, ni)
    \<and> oi \<le> length (Frames g)
    \<and> ni \<le> length (getFrameInfos rt (skip + 1) (Capacity tr2) (clock rt cf))
    \<and> length (Frames g) - oi
         = length (getFrameInfos rt (skip + 1) (Capacity tr2) (clock rt cf)) - ni
    \<and> (\<forall>j. oi + j < length (Frames g) \<longrightarrow>
           same_frames (Frames g ! (oi + j))
             (getFrameInfos rt (skip + 1) (Capacity tr2) (clock rt cf) ! (ni + j)))
    \<and> Trace rt skip args tr = Inr tr'
    \<and> Goroutines tr' = (Goroutines tr)(GoroutineID rt \<mapsto> g')
    \<and> g' = g\<lparr>Frames := take ni (getFrameInfos rt (skip + 1) (Capacity tr2) (clock rt cf))
                          @ drop oi (Frames g),
             TopMessage := messageFrom rt args, History := History g @ hs\<rparr>
    \<and> Out tr' = Some (calls
         @ (if changed
            then [Printf ''%s goroutine switched: %3d -> %-3d %s''
                    [VString (marker tr2), VInt (goroutineID tr), VInt (GoroutineID rt),
                     VString (marker tr2)]]
            else [])
         @ (if changed \<and> OnGoroutineSwitchPrintStackHistory tr
            then map (\<lambda>l. Println [VString l]) (History g) else [])
         @ lines)
    \<and> length lines = length hs
    \<and> ((changed \<longrightarrow> OnGoroutineSwitchPrintStackHistory tr
                     \<or> \<not> OnGoroutineSwitchPrintCurrentStack tr) \<longrightarrow>
          length lines = ni \<and> (\<forall>c \<in> set lines. \<exists>l. c = Printf l [VRune (calloutNew tr1)]))"
proof -
  from Trace_setup[OF fp pr sg, of skip args] obtain m0 g0 cf calls calls2 where
    G: "Goroutines tr = m0" and gp: "Some g = Some g0"
    and pres: "None \<notin> set (Frames g0)"
    and cf: "ClockFn tr2 = Some cf" and o: "Out tr = Some calls" and o2: "Out tr2 = Some calls2"
    and c2: "calls2 = (if changed
                 then calls @ [Printf ''%s goroutine switched: %3d -> %-3d %s''
                        [VString (marker tr2), VInt (goroutineID tr), VInt (GoroutineID rt),
                         VString (marker tr2)]]
                 else calls)"
    and g2: "goroutines tr2 = Some (m0(GoroutineID rt \<mapsto> g0))"
    and id2: "goroutineID tr2 = GoroutineID rt"
    and cn: "calloutNew tr2 = calloutNew tr1"
    and fh: "OnGoroutineSwitchPrintStackHistory tr2 = OnGoroutineSwitchPrintStackHistory tr"
    and fc: "OnGoroutineSwitchPrintCurrentStack tr2 = OnGoroutineSwitchPrintCurrentStack tr"
    and tr: "Trace rt skip args tr = Trace_tail rt skip args changed (Some g0) tr2"
    by blast
  from gp have gg: "g0 = g" by simp
  let ?cap = "getFrameInfos rt (skip + 1) (Capacity tr2) (clock rt cf)"
  let ?printed = "(if changed \<and> OnGoroutineSwitchPrintStackHistory tr2
                         then map (\<lambda>l. Println [VString l]) (History g) else [])"
  from Trace_tail_result[where tr=tr2 and cf=cf and calls=calls2 and g=g and rt=rt
        and skip=skip and changed=changed and args=args, OF cf o2 pres[unfolded gg] refl refl]
  obtain oi ni tr4 g' hs lines where
    d: "findLastCommonFrameIndex (Frames g) ?cap = Inr (oi, ni)"
    and b: "oi \<le> length (Frames g)" "ni \<le> length ?cap"
           "length (Frames g) - oi = length ?cap - ni"
    and sm: "\<forall>j. oi + j < length (Frames g) \<longrightarrow>
           same_frames (Frames g ! (oi + j)) (?cap ! (ni + j))"
    and tt: "Trace_tail rt skip args changed (Some g) tr2 = Inr (store_goroutine tr4 g')"
    and g': "g' = g\<lparr>Frames := take ni ?cap @ drop oi (Frames g),
             TopMessage := messageFrom rt args, History := History g @ hs\<rparr>"
    and t4: "tr4 = tr2\<lparr>indents := indents tr4, Out := Out tr4\<rparr>"
    and o4: "Out tr4 = Some (calls2 @ ?printed @ lines)"
    and ll: "length lines = length hs"
    and mk: "(changed \<longrightarrow> OnGoroutineSwitchPrintStackHistory tr2
                     \<or> \<not> OnGoroutineSwitchPrintCurrentStack tr2) \<longrightarrow>
          length lines = ni \<and> (\<forall>c \<in> set lines. \<exists>l. c = Printf l [VRune (calloutNew tr2)])"
    by blast
  have g4: "goroutines tr4 = Some (m0(GoroutineID rt \<mapsto> g))" "goroutineID tr4 = GoroutineID rt"
    by (subst t4, simp add: g2 id2 gg)+
  have q1: "Trace rt skip args tr = Inr (store_goroutine tr4 g')"
    using tr tt gg by simp
  have q2: "Goroutines (store_goroutine tr4 g') = (Goroutines tr)(GoroutineID rt \<mapsto> g')"
    using store_goroutine_Goroutines[OF g4(1), of g'] g4(2) G by simp
  have q3: "Out (store_goroutine tr4 g') = Some (calls
         @ (if changed
            then [Printf ''%s goroutine switched: %3d -> %-3d %s''
                    [VString (marker tr2), VInt (goroutineID tr), VInt (GoroutineID rt),
                     VString (marker tr2)]]
            else [])
         @ (if changed \<and> OnGoroutineSwitchPrintStackHistory tr
            then map (\<lambda>l. Println [VString l]) (History g) else [])
         @ lines)"
    using o4 c2 fh by (simp add: store_goroutine_def)
  have q4: "(changed \<longrightarrow> OnGoroutineSwitchPrintStackHistory tr
                     \<or> \<not> OnGoroutineSwitchPrintCurrentStack tr) \<longrightarrow>
          length lines = ni \<and> (\<forall>c \<in> set lines. \<exists>l. c = Printf l [VRune (calloutNew tr1)])"
    using mk fh fc cn by simp
  have c1: "?cap \<noteq> []" and c3: "None \<notin> set ?cap" by (rule getFrameInfos_props)+
  show ?thesis
    apply (rule exI[of _ cf], rule exI[of _ calls], rule exI[of _ oi], rule exI[of _ ni])
    apply (rule exI[of _ "store_goroutine tr4 g'"], rule exI[of _ g'])
    apply (rule exI[of _ hs], rule exI[of _ lines])
    apply (intro conjI)
    apply (rule cf, rule o, rule pres[unfolded gg], rule c1, rule c3, rule d)
    apply (rule b(1), rule b(2), rule b(3), rule sm, rule q1, rule q2, rule g', rule q3)
    apply (rule ll, rule q4)
    done
qed

text \<open>
  The stored frames are present in a new tracer, and \<open>Trace\<close> keeps them present: the
  hypothesis \<open>frames_present\<close> of the theorems below holds in every state that calls of
  \<open>Trace\<close> reach from a new tracer.
\<close>

lemma frames_present_initial: "goroutines tr = None \<Longrightarrow> frames_present tr"
  by (simp add: frames_present_def Goroutines_eq)

lemma Trace_preserves_frames_present:
  assumes fp: "frames_present tr" and t: "Trace rt skip args tr = Inr tr'"
  shows "frames_present tr'"
proof (cases "proceed tr")
  case (Pair b tr1)
  show ?thesis
  proof (cases b)
    case False
    with Pair have "tr1 = tr" by (simp add: proceed_False)
    with t Pair False have "tr' = tr" by (simp add: Trace_def)
    with fp show ?thesis by simp
  next
    case True
    with Pair have pt: "proceed tr = (True, tr1)" by simp
    note p = proceed_True[OF pt]
    from t pt obtain go_on changed gp tr2 where
      sg: "setGoroutine rt tr1 = Inr (go_on, changed, gp, tr2)"
      by (cases "setGoroutine rt tr1") (auto simp: Trace_def)
    show ?thesis
    proof (cases go_on)
      case False
      with sg setGoroutine_refused[of rt tr1 changed gp tr2] have "tr2 = tr1" by simp
      with t pt sg False have "tr' = tr1" by (simp add: Trace_def)
      with fp p(5) show ?thesis by (simp add: frames_present_def)
    next
      case go: True
      from sg go have sgt: "setGoroutine rt tr1 = Inr (True, changed, gp, tr2)" by simp
      from setGoroutine_result[OF sgt] obtain g where "gp = Some g" by blast
      with sgt have sgs: "setGoroutine rt tr1 = Inr (True, changed, Some g, tr2)" by simp
      from Trace_proceeds[OF fp pt sgs, of skip args] obtain cf oi ni tr'' g' hs where
        pres: "None \<notin> set (Frames g)"
        and pc: "None \<notin> set (getFrameInfos rt (skip + 1) (Capacity tr2) (clock rt cf))"
        and t': "Trace rt skip args tr = Inr tr''"
        and G': "Goroutines tr'' = (Goroutines tr)(GoroutineID rt \<mapsto> g')"
        and g': "g' = g\<lparr>Frames := take ni (getFrameInfos rt (skip + 1) (Capacity tr2) (clock rt cf))
                          @ drop oi (Frames g),
             TopMessage := messageFrom rt args, History := History g @ hs\<rparr>"
        by blast
      from t t' have "tr'' = tr'" by simp
      with G' have G: "Goroutines tr' = (Goroutines tr)(GoroutineID rt \<mapsto> g')" by simp
      have "None \<notin> set (Frames g')"
        using pres pc by (auto simp: g' dest: in_set_takeD in_set_dropD)
      with fp G show ?thesis by (auto simp: frames_present_def split: if_splits)
    qed
  qed
qed












lemma Trace_tail_partial:
  assumes "Trace_tail rt skip args changed (Some g) tr = Inr tr'"
  shows "\<exists>tr4 g2 hs. tr' = store_goroutine tr4 g2 \<and> goroutines tr4 = goroutines tr
     \<and> goroutineID tr4 = goroutineID tr \<and> History g2 = History g @ hs"
proof -
  from assms obtain cf where cf: "ClockFn tr = Some cf"
    by (cases "ClockFn tr") (auto simp: Trace_tail_def)
  define captured where "captured = getFrameInfos rt (skip + 1) (Capacity tr) (clock rt cf)"
  define g0 where "g0 = g\<lparr>TopMessage := messageFrom rt args\<rparr>"
  from assms cf obtain oi ni where
    d: "findLastCommonFrameIndex (Frames g0) captured = Inr (oi, ni)"
    by (cases "findLastCommonFrameIndex (Frames g0) captured")
       (auto simp: Trace_tail_def Let_def captured_def g0_def)
  from assms cf d obtain newFrames where nf: "slice_to captured ni = Inr newFrames"
    by (cases "slice_to captured ni")
       (auto simp: Trace_tail_def Let_def captured_def g0_def)
  from assms cf d nf obtain storedFrames where sf: "slice_from (Frames g0) oi = Inr storedFrames"
    by (cases "slice_from (Frames g0) oi")
       (auto simp: Trace_tail_def Let_def captured_def g0_def)
  define g1 where "g1 = g0\<lparr>Frames := newFrames @ storedFrames\<rparr>"
  define pre where "pre = (if changed then
                (if OnGoroutineSwitchPrintStackHistory tr then
                   (case printHistory tr g1 of
                      Inl e \<Rightarrow> Inl e
                    | Inr tr3 \<Rightarrow> Inr (tr3, int ni))
                 else if OnGoroutineSwitchPrintCurrentStack tr then
                   Inr (tr, - 1)
                 else Inr (tr, int ni))
              else Inr (tr, int ni))"
  have unf: "Trace_tail rt skip args changed (Some g) tr =
      (case pre of
         Inl e \<Rightarrow> Inl e
       | Inr (tr3, printFrom1) \<Rightarrow>
          (case printFrameIndicesLowerThan rt tr3 g1 printFrom1 (int ni) of
             Inl e \<Rightarrow> Inl e
           | Inr (tr4, goroutine2) \<Rightarrow> Inr (store_goroutine tr4 goroutine2)))"
    using cf d nf sf
    by (simp add: Trace_tail_def Let_def captured_def[symmetric] g0_def[symmetric]
          g1_def[symmetric] pre_def[symmetric])
  from assms unf obtain tr3 printFrom1 where p: "pre = Inr (tr3, printFrom1)"
    by (cases pre) auto
  have t3: "tr3 = tr\<lparr>Out := Out tr3\<rparr>"
  proof (cases "changed \<and> OnGoroutineSwitchPrintStackHistory tr")
    case True
    with p have "printHistory tr g1 = Inr tr3"
      by (auto simp: pre_def split: sum.splits)
    then show ?thesis unfolding printHistory_def by (rule printHistory_loop_result)
  next
    case False
    with p have "tr3 = tr" by (auto simp: pre_def split: if_splits)
    then show ?thesis by simp
  qed
  from assms unf p obtain tr4 g2 where
    l: "printFrameIndicesLowerThan rt tr3 g1 printFrom1 (int ni) = Inr (tr4, g2)"
    and r: "tr' = store_goroutine tr4 g2"
    by (cases "printFrameIndicesLowerThan rt tr3 g1 printFrom1 (int ni)") auto
  from l have "\<exists>idx. printFrameIndicesLowerThan_loop rt tr3 g1 idx (int ni) = Inr (tr4, g2)"
    by (auto simp: printFrameIndicesLowerThan_def Let_def)
  then obtain idx where "printFrameIndicesLowerThan_loop rt tr3 g1 idx (int ni) = Inr (tr4, g2)"
    by blast
  from loop_result[OF this] obtain hs where
    t4: "tr4 = tr3\<lparr>indents := indents tr4, Out := Out tr4\<rparr>"
    and h: "g2 = g1\<lparr>History := History g1 @ hs\<rparr>" by blast
  have "goroutines tr4 = goroutines tr" "goroutineID tr4 = goroutineID tr"
    by (subst t4, subst t3, simp)+
  moreover have "History g2 = History g @ hs" by (simp add: h g1_def g0_def)
  ultimately show ?thesis using r by blast
qed

text \<open>
  Claim C8. For every call of \<open>Trace\<close> that returns and every goroutine state tracked
  before the call, the state is still tracked after the call and its history before the
  call is a prefix of its history after the call.
\<close>

theorem history_append_only:
  assumes "Trace rt skip args tr = Inr tr'" and "Goroutines tr key = Some g"
  shows "\<exists>g'. Goroutines tr' key = Some g' \<and> prefix (History g) (History g')"
proof (cases "proceed tr")
  case (Pair b tr1)
  show ?thesis
  proof (cases b)
    case False
    with Pair have "tr1 = tr" by (simp add: proceed_False)
    with assms Pair False have "tr' = tr" by (simp add: Trace_def)
    with assms(2) show ?thesis by simp
  next
    case True
    with Pair have pt: "proceed tr = (True, tr1)" by simp
    note p = proceed_True[OF pt]
    from assms(1) pt obtain go_on changed gp tr2 where
      sg: "setGoroutine rt tr1 = Inr (go_on, changed, gp, tr2)"
      by (cases "setGoroutine rt tr1") (auto simp: Trace_def)
    show ?thesis
    proof (cases go_on)
      case False
      with sg setGoroutine_refused[of rt tr1 changed gp tr2] have "tr2 = tr1" by simp
      with assms(1) pt sg False have "tr' = tr1" by (simp add: Trace_def)
      with assms(2) p(5) show ?thesis by simp
    next
      case go: True
      from sg go have sgt: "setGoroutine rt tr1 = Inr (True, changed, gp, tr2)" by simp
      from setGoroutine_result[OF sgt] obtain m0 g0 tr3 where
        m0: "goroutines tr1 = Some m0"
        and g0: "g0 = (case m0 (GoroutineID rt) of
              None \<Rightarrow> \<lparr>ID = GoroutineID rt, Frames = [], TopMessage = [], History = []\<rparr>
            | Some g0 \<Rightarrow> g0)"
        and gp: "gp = Some g0"
        and t2: "tr2 = tr3\<lparr>goroutineID := GoroutineID rt,
                  goroutines := Some (m0(GoroutineID rt \<mapsto> g0))\<rparr>"
        by blast
      have G: "Goroutines tr = m0" using p(5) m0 by (simp add: Goroutines_eq)
      from assms(1) pt sg go gp have
        "Trace_tail rt skip args changed (Some g0) tr2 = Inr tr'" by (simp add: Trace_def)
      from Trace_tail_partial[OF this] obtain tr4 g2 hs where
        r: "tr' = store_goroutine tr4 g2" and g4: "goroutines tr4 = goroutines tr2"
        and i4: "goroutineID tr4 = goroutineID tr2" and h: "History g2 = History g0 @ hs"
        by blast
      have g4': "goroutines tr4 = Some (m0(GoroutineID rt \<mapsto> g0))"
        and i4': "goroutineID tr4 = GoroutineID rt"
        using g4 i4 by (simp_all add: t2)
      have G': "Goroutines tr' = m0(GoroutineID rt \<mapsto> g2)"
        using store_goroutine_Goroutines[OF g4', of g2] i4' r by simp
      show ?thesis
      proof (cases "key = GoroutineID rt")
        case True
        with assms(2) G have "m0 (GoroutineID rt) = Some g" by simp
        then have "g0 = g" by (simp add: g0)
        with h have "prefix (History g) (History g2)" by simp
        then show ?thesis using G' True by simp
      next
        case False
        with assms(2) G G' have "Goroutines tr' key = Some g" by simp
        then show ?thesis by simp
      qed
    qed
  qed
qed

text \<open>The second call of the example run, seen from the state of goroutine 1.\<close>

theorem history_append_only_witness:
  "Trace ex_rt2 0 [] ex_state1 = Inr ex_state2
   \<and> Goroutines ex_state1 1 = Some ex_main_info
   \<and> (\<exists>g'. Goroutines ex_state2 1 = Some g' \<and> prefix (History ex_main_info) (History g'))"
proof -
  have h: "Goroutines ex_state1 1 = Some ex_main_info"
    by (simp add: Goroutines_eq ex_state1_def)
  from history_append_only[OF ex_run2 h] ex_run2 h show ?thesis by blast
qed

end
